theory Spec2Isabelle
  imports Main "HOL-Library.AList" "HOL-Library.Sublist"
begin

section \<open>Paths\<close>

text \<open>
  The module works on \<^verbatim>\<open>pathlib.Path\<close> values of a POSIX system.  Such a path is
  a root (none, \<^verbatim>\<open>/\<close>, or the distinguished \<^verbatim>\<open>//\<close>) and a list of components;
  two paths are equal, and hash alike, exactly when these agree.  Neither \<^verbatim>\<open>..\<close>
  nor symbolic links are resolved by the operations used here.
\<close>

datatype PathRoot = NoRoot | Slash | DoubleSlash

datatype Path = Path (path_root: PathRoot) (path_parts: "string list")

text \<open>\<^verbatim>\<open>str.split('/')\<close>.\<close>

fun split_sep :: "string \<Rightarrow> string list" where
  "split_sep [] = [[]]"
| "split_sep (c # cs) =
     (if c = CHR ''/'' then [] # split_sep cs
      else (case split_sep cs of
              [] \<Rightarrow> [[c]]
            | w # ws \<Rightarrow> (c # w) # ws))"

text \<open>
  The POSIX flavour's \<^verbatim>\<open>splitroot\<close>: exactly two leading slashes give the root
  \<^verbatim>\<open>//\<close>, any other positive number of them gives \<^verbatim>\<open>/\<close>.
\<close>

definition splitroot :: "string \<Rightarrow> PathRoot \<times> string" where
  "splitroot part =
     (if part \<noteq> [] \<and> hd part = CHR ''/'' then
        (let stripped_part = dropWhile (\<lambda>c. c = CHR ''/'') part
         in if length part - length stripped_part = 2
            then (DoubleSlash, stripped_part)
            else (Slash, stripped_part))
      else (NoRoot, part))"

text \<open>\<^verbatim>\<open>Path(s)\<close>: empty components and \<^verbatim>\<open>.\<close> are dropped.\<close>

definition Path_of_str :: "string \<Rightarrow> Path" where
  "Path_of_str s =
     (case splitroot s of
        (root, rel) \<Rightarrow> Path root (filter (\<lambda>x. x \<noteq> [] \<and> x \<noteq> ''.'') (split_sep rel)))"

text \<open>\<^verbatim>\<open>a / b\<close> for two paths: a rooted right operand replaces the left one.\<close>

definition truediv :: "Path \<Rightarrow> Path \<Rightarrow> Path" where
  "truediv a b =
     (if path_root b \<noteq> NoRoot then b
      else Path (path_root a) (path_parts a @ path_parts b))"

text \<open>\<^verbatim>\<open>a / s\<close> for a path and a string.\<close>

definition truediv_str :: "Path \<Rightarrow> string \<Rightarrow> Path" where
  "truediv_str a s = truediv a (Path_of_str s)"

text \<open>\<^verbatim>\<open>p.parent\<close>: the parent of a bare root, and of the empty relative path, is itself.\<close>

definition parent :: "Path \<Rightarrow> Path" where
  "parent p = Path (path_root p) (butlast (path_parts p))"

section \<open>Candidate locations\<close>

definition standard_locations :: "Path \<Rightarrow> string \<Rightarrow> Path list" where
  "standard_locations base_path partition_name =
     [truediv_str base_path partition_name,
      truediv_str (truediv_str base_path partition_name) partition_name]"

definition extended_locations :: "Path \<Rightarrow> string \<Rightarrow> Path list" where
  "extended_locations base_path partition_name =
     (if partition_name = ''system'' then
        [truediv_str base_path ''system'',
         truediv_str (truediv_str base_path ''system'') ''system'',
         truediv_str (truediv_str (truediv_str base_path ''boot'') ''ramdisk'') ''system'',
         truediv_str (truediv_str (truediv_str base_path ''recovery'') ''ramdisk'') ''system'',
         truediv_str (truediv_str (truediv_str base_path ''vendor_boot'') ''ramdisk'') ''system'',
         truediv_str (truediv_str (parent base_path) ''ramdisk'') ''system'',
         truediv_str (truediv_str (parent base_path) ''vendor_ramdisk'') ''system'']
      else if partition_name = ''vendor'' then
        [truediv_str base_path ''vendor'',
         truediv_str (truediv_str (truediv_str base_path ''boot'') ''ramdisk'') ''vendor'',
         truediv_str (truediv_str (truediv_str base_path ''recovery'') ''ramdisk'') ''vendor'',
         truediv_str (truediv_str (truediv_str base_path ''vendor_boot'') ''ramdisk'') ''vendor'',
         truediv_str (truediv_str (parent base_path) ''ramdisk'') ''vendor'',
         truediv_str (truediv_str (parent base_path) ''vendor_ramdisk'') ''vendor'']
      else standard_locations base_path partition_name)"

definition global_locations :: "Path \<Rightarrow> string \<Rightarrow> Path list" where
  "global_locations base_path partition_name =
     [truediv_str base_path partition_name,
      truediv_str (truediv_str (truediv_str base_path ''boot'') ''ramdisk'') partition_name,
      truediv_str (truediv_str (truediv_str base_path ''recovery'') ''ramdisk'') partition_name,
      truediv_str (truediv_str (truediv_str base_path ''vendor_boot'') ''ramdisk'') partition_name,
      truediv_str (parent base_path) partition_name,
      truediv_str (truediv_str (parent base_path) ''ramdisk'') partition_name,
      truediv_str (truediv_str (parent base_path) ''vendor_ramdisk'') partition_name,
      truediv_str (parent (parent base_path)) partition_name]"

text \<open>The list \<^verbatim>\<open>locations\<close> after both \<^verbatim>\<open>extend\<close> calls, before duplicates are removed.\<close>

definition locations :: "Path \<Rightarrow> string \<Rightarrow> Path list" where
  "locations base_path partition_name =
     extended_locations base_path partition_name @ global_locations base_path partition_name"

text \<open>
  The loop that removes duplicates: \<open>seen\<close> is the set, \<open>unique_locations\<close> the list
  built so far.
\<close>

fun unique_loop :: "'a set \<Rightarrow> 'a list \<Rightarrow> 'a list \<Rightarrow> 'a list" where
  "unique_loop seen unique_locations [] = unique_locations"
| "unique_loop seen unique_locations (loc # locs) =
     (if loc \<notin> seen then unique_loop (insert loc seen) (unique_locations @ [loc]) locs
      else unique_loop seen unique_locations locs)"

definition get_extended_search_locations :: "Path \<Rightarrow> string \<Rightarrow> Path list" where
  "get_extended_search_locations base_path partition_name =
     unique_loop {} [] (locations base_path partition_name)"

definition get_extended_build_prop_locations :: "Path list" where
  "get_extended_build_prop_locations =
     map Path_of_str
       [''build.prop'', ''default.prop'', ''prop.default'',
        ''etc/build.prop'', ''system/build.prop'', ''vendor/build.prop'',
        ''product/build.prop'', ''system_ext/build.prop'', ''odm/build.prop'']"

section \<open>What the module takes from outside\<close>

text \<open>
  Modelled from the spec: the module \<^verbatim>\<open>partition_model\<close> (the class
  \<^verbatim>\<open>PartitionModel\<close> and the groups \<^verbatim>\<open>SSI\<close> and \<^verbatim>\<open>TREBLE\<close>) is not among the
  sources.  A partition identity is an opaque enumerated value; \<open>SYSTEM\<close> and \<open>VENDOR\<close>
  are the two the code names, every other one is \<open>OtherModel n\<close>.  An identity is a
  plain object, hence true in a boolean context; \<^verbatim>\<open>None\<close> is the unknown identity.
\<close>

datatype PartitionModel = SYSTEM | VENDOR | OtherModel nat

text \<open>
  Modelled from the spec: the module \<^verbatim>\<open>partition\<close> (the class \<^verbatim>\<open>AndroidPartition\<close>
  and the list \<^verbatim>\<open>BUILD_PROP_LOCATION\<close>) is not among the sources.  A resolved
  partition pairs an identity with the directory it was found in; its constructor
  checks nothing.
\<close>

datatype AndroidPartition = AndroidPartition (ap_model: PartitionModel) (ap_path: Path)

text \<open>
  The environment of a run: the file system, as the predicate telling at which paths a
  regular file exists (\<^verbatim>\<open>Path.is_file\<close>), the canonical property-file list, and the
  catalog of identities (\<^verbatim>\<open>model.name\<close>, \<^verbatim>\<open>PartitionModel.from_group\<close> for the two
  groups, \<^verbatim>\<open>PartitionModel.from_name\<close>).
\<close>

record env =
  is_file :: "Path \<Rightarrow> bool"
  BUILD_PROP_LOCATION :: "Path list"
  model_name :: "PartitionModel \<Rightarrow> string"
  from_group_SSI :: "PartitionModel list"
  from_group_TREBLE :: "PartitionModel list"
  from_name :: "string \<Rightarrow> PartitionModel option"

section \<open>The partition table and the searches\<close>

text \<open>
  \<^verbatim>\<open>self.partitions\<close> is a dictionary, which keeps its keys in insertion order: an
  association list, written with \<open>AList.update\<close> (a present key keeps its place, a new
  one goes to the end) and read with \<open>map_of\<close>.
\<close>

type_synonym partition_table = "(PartitionModel \<times> AndroidPartition) list"

text \<open>
  An existence check is recorded as the pair of the candidate directory and the
  property file probed in it.
\<close>

type_synonym probe = "Path \<times> Path"

text \<open>
  The two assertions of the constructor, each with the list of locations its message
  prints, and the \<^verbatim>\<open>KeyError\<close> of reading an absent key of the table.
\<close>

datatype error = SystemNotFound "Path list" | VendorNotFound "Path list" | KeyError PartitionModel

text \<open>
  The list \<^verbatim>\<open>all_prop_locations\<close> of the constructor and of
  \<^verbatim>\<open>_search_for_partition_extended\<close>: the canonical list, then the extended one.
\<close>

definition all_prop_locations :: "env \<Rightarrow> Path list" where
  "all_prop_locations e = BUILD_PROP_LOCATION e @ get_extended_build_prop_locations"

text \<open>
  The inner loop over the property files, the same in all three searches: the first
  file that exists records the partition and breaks.  The flag tells whether it did.
\<close>

fun build_prop_loop ::
  "env \<Rightarrow> PartitionModel \<Rightarrow> Path \<Rightarrow> Path list \<Rightarrow> partition_table
     \<Rightarrow> partition_table \<times> bool \<times> probe list" where
  "build_prop_loop e m location [] ps = (ps, False, [])"
| "build_prop_loop e m location (build_prop_location # rest) ps =
     (if is_file e (truediv location build_prop_location)
      then (AList.update m (AndroidPartition m location) ps, True,
            [(location, build_prop_location)])
      else (case build_prop_loop e m location rest ps of
              (ps', found, log) \<Rightarrow> (ps', found, (location, build_prop_location) # log)))"

text \<open>
  The outer loop of the searches for System and Vendor, which breaks on the flag
  \<^verbatim>\<open>system_found\<close> (\<^verbatim>\<open>vendor_found\<close>).
\<close>

fun mandatory_loop ::
  "env \<Rightarrow> PartitionModel \<Rightarrow> Path list \<Rightarrow> Path list \<Rightarrow> bool \<Rightarrow> partition_table
     \<Rightarrow> partition_table \<times> probe list" where
  "mandatory_loop e m prop_locations [] found ps = (ps, [])"
| "mandatory_loop e m prop_locations (location # rest) found ps =
     (if found then (ps, [])
      else (case build_prop_loop e m location prop_locations ps of
              (ps', found', log) \<Rightarrow>
                (case mandatory_loop e m prop_locations rest found' ps' of
                   (ps'', log') \<Rightarrow> (ps'', log @ log'))))"

text \<open>
  The outer loop of \<^verbatim>\<open>_search_for_partition_extended\<close>, which breaks once the
  identity is a key of the table.
\<close>

fun extended_loop ::
  "env \<Rightarrow> PartitionModel \<Rightarrow> Path list \<Rightarrow> Path list \<Rightarrow> partition_table
     \<Rightarrow> partition_table \<times> probe list" where
  "extended_loop e m prop_locations [] ps = (ps, [])"
| "extended_loop e m prop_locations (location # rest) ps =
     (if m \<in> fst ` set ps then (ps, [])
      else (case build_prop_loop e m location prop_locations ps of
              (ps', found, log) \<Rightarrow>
                (case extended_loop e m prop_locations rest ps' of
                   (ps'', log') \<Rightarrow> (ps'', log @ log'))))"

text \<open>
  \<^verbatim>\<open>_search_for_partition_extended\<close>.  Its list \<^verbatim>\<open>possible_locations\<close> is the
  generator's list followed by three more candidates, under the System directory, under
  the Vendor directory and under the dump.  Reading the System or the Vendor entry of a
  table without one raises before anything is probed or written.
\<close>

definition possible_locations ::
  "env \<Rightarrow> Path \<Rightarrow> AndroidPartition \<Rightarrow> AndroidPartition \<Rightarrow> PartitionModel \<Rightarrow> Path list" where
  "possible_locations e dump system_partition vendor_partition m =
     get_extended_search_locations dump (model_name e m) @
       [truediv_str (ap_path system_partition) (model_name e m),
        truediv_str (ap_path vendor_partition) (model_name e m),
        truediv_str dump (model_name e m)]"

definition search_for_partition_extended ::
  "env \<Rightarrow> Path \<Rightarrow> partition_table \<Rightarrow> PartitionModel
     \<Rightarrow> error + (partition_table \<times> probe list)" where
  "search_for_partition_extended e dump ps m =
     (case map_of ps SYSTEM of
        None \<Rightarrow> Inl (KeyError SYSTEM)
      | Some system_partition \<Rightarrow>
          (case map_of ps VENDOR of
             None \<Rightarrow> Inl (KeyError VENDOR)
           | Some vendor_partition \<Rightarrow>
               Inr (extended_loop e m (all_prop_locations e)
                      (possible_locations e dump system_partition vendor_partition m) ps)))"

text \<open>The two \<^verbatim>\<open>for model in ...\<close> loops that end the constructor.\<close>

fun search_all ::
  "env \<Rightarrow> Path \<Rightarrow> PartitionModel list \<Rightarrow> partition_table \<Rightarrow> error + partition_table" where
  "search_all e dump [] ps = Inr ps"
| "search_all e dump (m # ms) ps =
     (case search_for_partition_extended e dump ps m of
        Inl err \<Rightarrow> Inl err
      | Inr (ps', log) \<Rightarrow> search_all e dump ms ps')"

section \<open>The class \<^verbatim>\<open>Partitions\<close>\<close>

record Partitions =
  dump_path :: Path
  partitions :: partition_table
  system :: AndroidPartition
  vendor :: AndroidPartition

text \<open>\<^verbatim>\<open>Partitions.__init__\<close>: the object built, or the exception raised.\<close>

definition init :: "env \<Rightarrow> Path \<Rightarrow> error + Partitions" where
  "init e dump =
     (let system_search_locations = get_extended_search_locations dump ''system'';
          ps1 = fst (mandatory_loop e SYSTEM (all_prop_locations e)
                       system_search_locations False [])
      in case map_of ps1 SYSTEM of
           None \<Rightarrow> Inl (SystemNotFound system_search_locations)
         | Some system_partition \<Rightarrow>
             (let vendor_search_locations =
                    truediv_str (ap_path system_partition) ''vendor''
                      # get_extended_search_locations dump ''vendor'';
                  ps2 = fst (mandatory_loop e VENDOR (all_prop_locations e)
                               vendor_search_locations False ps1)
              in case map_of ps2 VENDOR of
                   None \<Rightarrow> Inl (VendorNotFound vendor_search_locations)
                 | Some vendor_partition \<Rightarrow>
                     (case search_all e dump
                             (filter (\<lambda>model. model \<noteq> SYSTEM) (from_group_SSI e)) ps2 of
                        Inl err \<Rightarrow> Inl err
                      | Inr ps3 \<Rightarrow>
                          (case search_all e dump
                                  (filter (\<lambda>model. model \<noteq> VENDOR) (from_group_TREBLE e)) ps3 of
                             Inl err \<Rightarrow> Inl err
                           | Inr ps4 \<Rightarrow>
                               Inr \<lparr>dump_path = dump, partitions = ps4,
                                    system = system_partition,
                                    vendor = vendor_partition\<rparr>))))"

text \<open>\<^verbatim>\<open>get_partition\<close>; the argument is an identity or \<^verbatim>\<open>None\<close>.\<close>

definition get_partition :: "Partitions \<Rightarrow> PartitionModel option \<Rightarrow> AndroidPartition option" where
  "get_partition self model =
     (case model of
        None \<Rightarrow> None
      | Some m \<Rightarrow> (if m \<in> fst ` set (partitions self) then map_of (partitions self) m else None))"

definition get_partition_by_name ::
  "env \<Rightarrow> Partitions \<Rightarrow> string \<Rightarrow> AndroidPartition option" where
  "get_partition_by_name e self name = get_partition self (from_name e name)"

definition get_all_partitions :: "Partitions \<Rightarrow> AndroidPartition list" where
  "get_all_partitions self = map snd (partitions self)"

section \<open>Example dumps\<close>

text \<open>
  A dump at \<^verbatim>\<open>/dump\<close> holding the given regular files, with an empty canonical
  property-file list and a catalog of four identities: System and \<^verbatim>\<open>product\<close> in the
  first group, Vendor and \<^verbatim>\<open>odm\<close> in the second.
\<close>

definition example_dump :: Path where
  "example_dump = Path Slash [''dump'']"

definition example_name :: "PartitionModel \<Rightarrow> string" where
  "example_name m =
     (case m of SYSTEM \<Rightarrow> ''system'' | VENDOR \<Rightarrow> ''vendor''
      | OtherModel n \<Rightarrow> (if n = 0 then ''product'' else ''odm''))"

definition example_env :: "Path list \<Rightarrow> env" where
  "example_env files =
     \<lparr>is_file = (\<lambda>p. p \<in> set files),
      BUILD_PROP_LOCATION = [],
      model_name = example_name,
      from_group_SSI = [SYSTEM, OtherModel 0],
      from_group_TREBLE = [VENDOR, OtherModel 1],
      from_name = (\<lambda>s. if s = ''system'' then Some SYSTEM
                          else if s = ''vendor'' then Some VENDOR
                          else if s = ''product'' then Some (OtherModel 0)
                          else if s = ''odm'' then Some (OtherModel 1)
                          else None)\<rparr>"

text \<open>The table once System and Vendor were found at \<^verbatim>\<open>/dump/system\<close> and \<^verbatim>\<open>/dump/vendor\<close>.\<close>

definition example_table :: partition_table where
  "example_table =
     [(SYSTEM, AndroidPartition SYSTEM (Path Slash [''dump'', ''system''])),
      (VENDOR, AndroidPartition VENDOR (Path Slash [''dump'', ''vendor'']))]"

section \<open>Facts about paths and about the removal of duplicates\<close>

lemma Path_of_str_literals:
  "Path_of_str ''system'' = Path NoRoot [''system'']"
  "Path_of_str ''vendor'' = Path NoRoot [''vendor'']"
  "Path_of_str ''boot'' = Path NoRoot [''boot'']"
  "Path_of_str ''recovery'' = Path NoRoot [''recovery'']"
  "Path_of_str ''vendor_boot'' = Path NoRoot [''vendor_boot'']"
  "Path_of_str ''ramdisk'' = Path NoRoot [''ramdisk'']"
  "Path_of_str ''vendor_ramdisk'' = Path NoRoot [''vendor_ramdisk'']"
  by (simp_all add: Path_of_str_def splitroot_def)

lemma truediv_relative:
  "truediv a (Path NoRoot xs) = Path (path_root a) (path_parts a @ xs)"
  by (simp add: truediv_def)

lemma unique_loop_append:
  "unique_loop seen acc xs = acc @ unique_loop seen [] xs"
proof (induction xs arbitrary: seen acc)
  case Nil
  show ?case by simp
next
  case (Cons x xs)
  show ?case
  proof (cases "x \<in> seen")
    case True
    then show ?thesis using Cons.IH [of seen acc] by simp
  next
    case False
    have "unique_loop (insert x seen) (acc @ [x]) xs = (acc @ [x]) @ unique_loop (insert x seen) [] xs"
      by (rule Cons.IH)
    moreover have "unique_loop (insert x seen) [x] xs = [x] @ unique_loop (insert x seen) [] xs"
      by (rule Cons.IH)
    ultimately show ?thesis using False by simp
  qed
qed

lemma set_unique_loop:
  "set (unique_loop seen acc xs) = set acc \<union> (set xs - seen)"
  by (induction xs arbitrary: seen acc) auto

lemma distinct_unique_loop:
  "distinct acc \<Longrightarrow> set acc \<subseteq> seen \<Longrightarrow> distinct (unique_loop seen acc xs)"
proof (induction xs arbitrary: seen acc)
  case Nil
  then show ?case by simp
next
  case (Cons x xs)
  show ?case
  proof (cases "x \<in> seen")
    case True
    then show ?thesis using Cons.IH [OF Cons.prems] by simp
  next
    case False
    have "distinct (acc @ [x])" using False Cons.prems by auto
    moreover have "set (acc @ [x]) \<subseteq> insert x seen" using Cons.prems by auto
    ultimately have "distinct (unique_loop (insert x seen) (acc @ [x]) xs)"
      by (rule Cons.IH)
    then show ?thesis using False by simp
  qed
qed

lemma unique_loop_distinct_prefix:
  "distinct xs \<Longrightarrow> set xs \<inter> seen = {} \<Longrightarrow>
   unique_loop seen acc (xs @ ys) = unique_loop (seen \<union> set xs) (acc @ xs) ys"
  by (induction xs arbitrary: seen acc) auto

lemma first_index_in_prefix:
  "a \<in> set pre \<Longrightarrow> length (takeWhile (\<lambda>z. z \<noteq> a) (pre @ ys)) < length pre"
  by (induction pre) auto

lemma first_index_after_prefix:
  "a \<notin> set pre \<Longrightarrow> length (takeWhile (\<lambda>z. z \<noteq> a) (pre @ a # ys)) = length pre"
  by (induction pre) auto

lemma unique_loop_first_occurrence:
  "seen = set pre \<Longrightarrow> set acc = set pre \<Longrightarrow>
   sorted_wrt (\<lambda>x y. length (takeWhile (\<lambda>z. z \<noteq> x) (pre @ xs))
                     < length (takeWhile (\<lambda>z. z \<noteq> y) (pre @ xs))) acc \<Longrightarrow>
   sorted_wrt (\<lambda>x y. length (takeWhile (\<lambda>z. z \<noteq> x) (pre @ xs))
                     < length (takeWhile (\<lambda>z. z \<noteq> y) (pre @ xs)))
     (unique_loop seen acc xs)"
proof (induction xs arbitrary: seen acc pre)
  case Nil
  then show ?case by simp
next
  case (Cons x xs)
  have raw: "pre @ x # xs = (pre @ [x]) @ xs" by simp
  show ?case
  proof (cases "x \<in> seen")
    case True
    have "sorted_wrt (\<lambda>a b. length (takeWhile (\<lambda>z. z \<noteq> a) ((pre @ [x]) @ xs))
                     < length (takeWhile (\<lambda>z. z \<noteq> b) ((pre @ [x]) @ xs)))
            (unique_loop seen acc xs)"
    proof (rule Cons.IH)
      show "seen = set (pre @ [x])" using True Cons.prems(1) by auto
      show "set acc = set (pre @ [x])" using True Cons.prems(1,2) by auto
      show "sorted_wrt (\<lambda>a b. length (takeWhile (\<lambda>z. z \<noteq> a) ((pre @ [x]) @ xs))
                     < length (takeWhile (\<lambda>z. z \<noteq> b) ((pre @ [x]) @ xs))) acc"
        using Cons.prems(3) by simp
    qed
    then show ?thesis using True by simp
  next
    case False
    then have notin: "x \<notin> set pre" using Cons.prems(1) by simp
    have "sorted_wrt (\<lambda>a b. length (takeWhile (\<lambda>z. z \<noteq> a) ((pre @ [x]) @ xs))
                     < length (takeWhile (\<lambda>z. z \<noteq> b) ((pre @ [x]) @ xs)))
            (unique_loop (insert x seen) (acc @ [x]) xs)"
    proof (rule Cons.IH)
      show "insert x seen = set (pre @ [x])" using Cons.prems(1) by auto
      show "set (acc @ [x]) = set (pre @ [x])" using Cons.prems(2) by auto
      have "\<forall>a\<in>set acc. length (takeWhile (\<lambda>z. z \<noteq> a) (pre @ x # xs))
                < length (takeWhile (\<lambda>z. z \<noteq> x) (pre @ x # xs))"
        using first_index_in_prefix [of _ pre "x # xs"] first_index_after_prefix [OF notin, of xs]
          Cons.prems(2) by auto
      then show "sorted_wrt (\<lambda>a b. length (takeWhile (\<lambda>z. z \<noteq> a) ((pre @ [x]) @ xs))
                     < length (takeWhile (\<lambda>z. z \<noteq> b) ((pre @ [x]) @ xs))) (acc @ [x])"
        using Cons.prems(3) by (simp add: sorted_wrt_append)
    qed
    then show ?thesis using False by simp
  qed
qed

lemma unique_loop_keeps_distinct_prefix:
  assumes "distinct xs" and "length xs = n"
  shows "take n (unique_loop {} [] (xs @ ys)) = xs"
proof -
  have "unique_loop {} [] (xs @ ys) = unique_loop ({} \<union> set xs) ([] @ xs) ys"
    using assms by (intro unique_loop_distinct_prefix) simp_all
  also have "\<dots> = xs @ unique_loop (set xs) [] ys"
    using unique_loop_append [of "set xs" xs ys] by simp
  finally show ?thesis using assms(2) by simp
qed

lemma vendor_locations:
  "locations (Path r ps) ''vendor'' =
     [Path r (ps @ [''vendor'']),
      Path r (ps @ [''boot'', ''ramdisk'', ''vendor'']),
      Path r (ps @ [''recovery'', ''ramdisk'', ''vendor'']),
      Path r (ps @ [''vendor_boot'', ''ramdisk'', ''vendor''])]
     @ ([Path r (butlast ps @ [''ramdisk'', ''vendor'']),
        Path r (butlast ps @ [''vendor_ramdisk'', ''vendor''])]
     @ global_locations (Path r ps) ''vendor'')"
  by (simp add: locations_def extended_locations_def truediv_str_def Path_of_str_literals
      truediv_relative parent_def)

section \<open>Facts about the table and the search loops\<close>

lemma update_new_key:
  "k \<notin> fst ` set al \<Longrightarrow> AList.update k v al = al @ [(k, v)]"
  by (induction al) auto

lemma map_of_old_entry:
  "map_of ps k = Some v \<Longrightarrow> map_of (ps @ new) k = Some v"
  by (simp add: map_add_Some_iff)

lemma map_of_absent:
  "k \<notin> fst ` set ps \<Longrightarrow> map_of (ps @ new) k = map_of new k"
  by (induction ps) auto

lemma build_prop_loop_miss:
  "\<forall>f\<in>set files. \<not> is_file e (truediv d f) \<Longrightarrow>
   build_prop_loop e m d files ps = (ps, False, map (Pair d) files)"
  by (induction files) auto

lemma build_prop_loop_hit:
  "\<forall>g\<in>set fpre. \<not> is_file e (truediv d g) \<Longrightarrow> is_file e (truediv d f) \<Longrightarrow>
   build_prop_loop e m d (fpre @ f # fpost) ps =
     (AList.update m (AndroidPartition m d) ps, True, map (Pair d) fpre @ [(d, f)])"
  by (induction fpre) auto

lemma build_prop_loop_some_hit:
  assumes "\<exists>f\<in>set files. is_file e (truediv d f)"
  shows "\<exists>log. build_prop_loop e m d files ps = (AList.update m (AndroidPartition m d) ps, True, log)"
proof -
  from split_list_first_prop [OF assms]
  obtain fpre f fpost where "files = fpre @ f # fpost" "is_file e (truediv d f)"
    "\<forall>g\<in>set fpre. \<not> is_file e (truediv d g)" by blast
  then show ?thesis using build_prop_loop_hit [of fpre e d f m fpost ps] by simp
qed

lemma mandatory_loop_found:
  "mandatory_loop e m files locs True ps = (ps, [])"
  by (cases locs) simp_all

lemma mandatory_loop_miss:
  "\<forall>d\<in>set locs. \<forall>f\<in>set files. \<not> is_file e (truediv d f) \<Longrightarrow>
   mandatory_loop e m files locs False ps = (ps, List.product locs files)"
  by (induction locs) (simp_all add: build_prop_loop_miss)

lemma mandatory_loop_hit:
  assumes "\<forall>d'\<in>set pre. \<forall>f\<in>set files. \<not> is_file e (truediv d' f)"
    and "\<exists>f\<in>set files. is_file e (truediv d f)"
  shows "fst (mandatory_loop e m files (pre @ d # post) False ps)
           = AList.update m (AndroidPartition m d) ps"
  using assms(1)
proof (induction pre)
  case Nil
  from build_prop_loop_some_hit [OF assms(2), of m ps]
  obtain log where "build_prop_loop e m d files ps = (AList.update m (AndroidPartition m d) ps, True, log)"
    by blast
  then show ?case by (simp add: mandatory_loop_found)
next
  case (Cons a pre)
  then show ?case by (simp add: build_prop_loop_miss case_prod_beta)
qed

lemma mandatory_loop_cases:
  "fst (mandatory_loop e m files locs False ps) = ps
   \<or> (\<exists>d\<in>set locs. (\<exists>f\<in>set files. is_file e (truediv d f))
        \<and> fst (mandatory_loop e m files locs False ps) = AList.update m (AndroidPartition m d) ps)"
proof (cases "\<exists>d\<in>set locs. \<exists>f\<in>set files. is_file e (truediv d f)")
  case True
  from split_list_first_prop [OF True]
  obtain pre d post where s: "locs = pre @ d # post" "\<exists>f\<in>set files. is_file e (truediv d f)"
    "\<forall>d'\<in>set pre. \<not> (\<exists>f\<in>set files. is_file e (truediv d' f))" by blast
  then have "fst (mandatory_loop e m files (pre @ d # post) False ps)
           = AList.update m (AndroidPartition m d) ps"
    by (intro mandatory_loop_hit) auto
  then show ?thesis using s by auto
next
  case False
  then show ?thesis by (simp add: mandatory_loop_miss)
qed

lemma extended_loop_present:
  "m \<in> fst ` set ps \<Longrightarrow> extended_loop e m files locs ps = (ps, [])"
  by (cases locs) simp_all

lemma extended_loop_miss:
  "m \<notin> fst ` set ps \<Longrightarrow> \<forall>d\<in>set locs. \<forall>f\<in>set files. \<not> is_file e (truediv d f) \<Longrightarrow>
   extended_loop e m files locs ps = (ps, List.product locs files)"
  by (induction locs) (simp_all add: build_prop_loop_miss)

lemma extended_loop_hit:
  assumes "m \<notin> fst ` set ps"
    and "\<forall>d'\<in>set pre. \<forall>f'\<in>set (fpre @ f # fpost). \<not> is_file e (truediv d' f')"
    and "\<forall>g\<in>set fpre. \<not> is_file e (truediv d g)"
    and "is_file e (truediv d f)"
  shows "extended_loop e m (fpre @ f # fpost) (pre @ d # post) ps =
           (ps @ [(m, AndroidPartition m d)],
            List.product pre (fpre @ f # fpost) @ map (Pair d) fpre @ [(d, f)])"
  using assms(2)
proof (induction pre)
  case Nil
  have "m \<in> fst ` set (ps @ [(m, AndroidPartition m d)])" by simp
  then have "extended_loop e m (fpre @ f # fpost) post (ps @ [(m, AndroidPartition m d)])
               = (ps @ [(m, AndroidPartition m d)], [])"
    by (rule extended_loop_present)
  then show ?case
    using assms(1) build_prop_loop_hit [OF assms(3,4), of m fpost ps]
    by (simp add: update_new_key)
next
  case (Cons a pre)
  then have "build_prop_loop e m a (fpre @ f # fpost) ps = (ps, False, map (Pair a) (fpre @ f # fpost))"
    by (intro build_prop_loop_miss) simp
  then show ?case using Cons assms(1) by simp
qed

lemma extended_loop_cases:
  "\<exists>log. extended_loop e m files locs ps = (ps, log)
     \<or> (m \<notin> fst ` set ps \<and>
        (\<exists>d\<in>set locs. (\<exists>f\<in>set files. is_file e (truediv d f))
           \<and> extended_loop e m files locs ps = (ps @ [(m, AndroidPartition m d)], log)))"
proof (cases "m \<in> fst ` set ps")
  case True
  then show ?thesis by (simp add: extended_loop_present)
next
  case absent: False
  show ?thesis
  proof (cases "\<exists>d\<in>set locs. \<exists>f\<in>set files. is_file e (truediv d f)")
    case True
    from split_list_first_prop [OF True]
    obtain pre d post where s: "locs = pre @ d # post" "\<exists>f\<in>set files. is_file e (truediv d f)"
      "\<forall>d'\<in>set pre. \<not> (\<exists>f\<in>set files. is_file e (truediv d' f))" by blast
    from split_list_first_prop [OF s(2)]
    obtain fpre f fpost where t: "files = fpre @ f # fpost" "is_file e (truediv d f)"
      "\<forall>g\<in>set fpre. \<not> is_file e (truediv d g)" by blast
    have "extended_loop e m (fpre @ f # fpost) (pre @ d # post) ps =
           (ps @ [(m, AndroidPartition m d)],
            List.product pre (fpre @ f # fpost) @ map (Pair d) fpre @ [(d, f)])"
      using absent s(3) t by (intro extended_loop_hit) auto
    then show ?thesis using absent s t by auto
  next
    case False
    then show ?thesis using absent by (simp add: extended_loop_miss)
  qed
qed

lemma key_present:
  "k \<in> fst ` set ps \<Longrightarrow> \<exists>v. map_of ps k = Some v"
  by (cases "map_of ps k") (simp_all add: map_of_eq_None_iff)

lemma search_with_anchors:
  "map_of ps SYSTEM = Some sp \<Longrightarrow> map_of ps VENDOR = Some vp \<Longrightarrow>
   search_for_partition_extended e dump ps m =
     Inr (extended_loop e m (all_prop_locations e) (possible_locations e dump sp vp m) ps)"
  by (simp add: search_for_partition_extended_def)

lemma search_cases:
  assumes "map_of ps SYSTEM = Some sp" and "map_of ps VENDOR = Some vp"
  shows "\<exists>log. search_for_partition_extended e dump ps m = Inr (ps, log)
     \<or> (m \<notin> fst ` set ps \<and>
        (\<exists>d\<in>set (possible_locations e dump sp vp m).
           (\<exists>f\<in>set (all_prop_locations e). is_file e (truediv d f))
           \<and> search_for_partition_extended e dump ps m
               = Inr (ps @ [(m, AndroidPartition m d)], log)))"
  using extended_loop_cases [of e m "all_prop_locations e" "possible_locations e dump sp vp m" ps]
  by (simp add: search_with_anchors [OF assms])

lemma search_needs_anchors:
  assumes "search_for_partition_extended e dump ps m = Inr r"
  shows "\<exists>sp vp. map_of ps SYSTEM = Some sp \<and> map_of ps VENDOR = Some vp"
proof (cases "map_of ps SYSTEM")
  case None
  then show ?thesis using assms by (simp add: search_for_partition_extended_def)
next
  case (Some sp)
  show ?thesis
  proof (cases "map_of ps VENDOR")
    case None
    then show ?thesis using assms Some by (simp add: search_for_partition_extended_def)
  next
    case (Some vp)
    then show ?thesis using \<open>map_of ps SYSTEM = Some sp\<close> by simp
  qed
qed

lemma search_present:
  assumes "m \<in> fst ` set ps" and "map_of ps SYSTEM = Some sp" and "map_of ps VENDOR = Some vp"
  shows "search_for_partition_extended e dump ps m = Inr (ps, [])"
  by (simp only: search_with_anchors [OF assms(2,3)] extended_loop_present [OF assms(1)])

lemma search_result_table:
  assumes "map_of ps SYSTEM = Some sp" and "map_of ps VENDOR = Some vp"
    and "search_for_partition_extended e dump ps m = Inr (ps', log)"
  shows "ps' = ps \<or> (m \<notin> fst ` set ps \<and>
           (\<exists>d\<in>set (possible_locations e dump sp vp m).
              (\<exists>f\<in>set (all_prop_locations e). is_file e (truediv d f))
              \<and> ps' = ps @ [(m, AndroidPartition m d)]))"
proof -
  from search_cases [OF assms(1,2), of e dump m]
  obtain lg where "search_for_partition_extended e dump ps m = Inr (ps, lg)
     \<or> (m \<notin> fst ` set ps \<and>
        (\<exists>d\<in>set (possible_locations e dump sp vp m).
           (\<exists>f\<in>set (all_prop_locations e). is_file e (truediv d f))
           \<and> search_for_partition_extended e dump ps m
               = Inr (ps @ [(m, AndroidPartition m d)], lg)))" by blast
  then show ?thesis
  proof
    assume "search_for_partition_extended e dump ps m = Inr (ps, lg)"
    then show ?thesis using assms(3) by simp
  next
    assume "m \<notin> fst ` set ps \<and>
        (\<exists>d\<in>set (possible_locations e dump sp vp m).
           (\<exists>f\<in>set (all_prop_locations e). is_file e (truediv d f))
           \<and> search_for_partition_extended e dump ps m
               = Inr (ps @ [(m, AndroidPartition m d)], lg))"
    then show ?thesis using assms(3) by fastforce
  qed
qed

lemma search_twice:
  assumes b1: "search_for_partition_extended e dump ps m = Inr (ps', log)"
    and b2: "search_for_partition_extended e dump ps' m = Inr (ps'', log')"
  shows "ps'' = ps'" and "m \<in> fst ` set ps' \<Longrightarrow> log' = []"
proof -
  obtain sp vp where anchors: "map_of ps SYSTEM = Some sp" "map_of ps VENDOR = Some vp"
    using search_needs_anchors [OF b1] by blast
  obtain sp' vp' where anchors': "map_of ps' SYSTEM = Some sp'" "map_of ps' VENDOR = Some vp'"
    using search_needs_anchors [OF b2] by blast
  have c: "ps' = ps \<or> m \<in> fst ` set ps'"
    using search_result_table [OF anchors b1] by auto
  have present: "ps'' = ps' \<and> log' = []" if "m \<in> fst ` set ps'"
    using search_present [OF that anchors', of e dump] b2 by simp
  show "ps'' = ps'"
  proof (cases "m \<in> fst ` set ps'")
    case True
    then show ?thesis using present by simp
  next
    case False
    then have "ps' = ps" using c by simp
    then show ?thesis using b1 b2 by simp
  qed
  show "m \<in> fst ` set ps' \<Longrightarrow> log' = []"
    using present by simp
qed

section \<open>Facts about the constructor\<close>

lemma search_all_shape:
  assumes "map_of ps SYSTEM = Some sp" and "map_of ps VENDOR = Some vp"
  shows "\<exists>new. search_all e dump ms ps = Inr (ps @ new)
           \<and> subseq (map fst new) ms \<and> distinct (map fst new)
           \<and> (\<forall>k v. (k, v) \<in> set new \<longrightarrow> k \<notin> fst ` set ps
                 \<and> (\<exists>d\<in>set (possible_locations e dump sp vp k).
                       (\<exists>f\<in>set (all_prop_locations e). is_file e (truediv d f))
                       \<and> v = AndroidPartition k d))"
  using assms
proof (induction ms arbitrary: ps)
  case Nil
  have "search_all e dump [] ps = Inr (ps @ [])" by simp
  then show ?case by (intro exI [of _ "[]"]) simp
next
  case (Cons m ms)
  from search_cases [OF Cons.prems, of e dump m]
  obtain lg where alt: "search_for_partition_extended e dump ps m = Inr (ps, lg)
     \<or> (m \<notin> fst ` set ps \<and>
        (\<exists>d\<in>set (possible_locations e dump sp vp m).
           (\<exists>f\<in>set (all_prop_locations e). is_file e (truediv d f))
           \<and> search_for_partition_extended e dump ps m
               = Inr (ps @ [(m, AndroidPartition m d)], lg)))" by blast
  from alt show ?case
  proof
    assume same: "search_for_partition_extended e dump ps m = Inr (ps, lg)"
    from Cons.IH [OF Cons.prems]
    obtain new where n: "search_all e dump ms ps = Inr (ps @ new)"
      "subseq (map fst new) ms" "distinct (map fst new)"
      "\<forall>k v. (k, v) \<in> set new \<longrightarrow> k \<notin> fst ` set ps
                 \<and> (\<exists>d\<in>set (possible_locations e dump sp vp k).
                       (\<exists>f\<in>set (all_prop_locations e). is_file e (truediv d f))
                       \<and> v = AndroidPartition k d)" by blast
    have 1: "search_all e dump (m # ms) ps = Inr (ps @ new)" using same n(1) by simp
    have 2: "subseq (map fst new) (m # ms)" using n(2) by (rule list_emb_Cons)
    show ?thesis using 1 2 n(3,4) by (intro exI [of _ new] conjI)
  next
    assume "m \<notin> fst ` set ps \<and>
        (\<exists>d\<in>set (possible_locations e dump sp vp m).
           (\<exists>f\<in>set (all_prop_locations e). is_file e (truediv d f))
           \<and> search_for_partition_extended e dump ps m
               = Inr (ps @ [(m, AndroidPartition m d)], lg))"
    then obtain d where d: "m \<notin> fst ` set ps" "d \<in> set (possible_locations e dump sp vp m)"
      "\<exists>f\<in>set (all_prop_locations e). is_file e (truediv d f)"
      "search_for_partition_extended e dump ps m = Inr (ps @ [(m, AndroidPartition m d)], lg)"
      by blast
    let ?ps1 = "ps @ [(m, AndroidPartition m d)]"
    have a1: "map_of ?ps1 SYSTEM = Some sp" using Cons.prems(1) by (rule map_of_old_entry)
    have a2: "map_of ?ps1 VENDOR = Some vp" using Cons.prems(2) by (rule map_of_old_entry)
    from Cons.IH [OF a1 a2]
    obtain new1 where n: "search_all e dump ms ?ps1 = Inr (?ps1 @ new1)"
      "subseq (map fst new1) ms" "distinct (map fst new1)"
      "\<forall>k v. (k, v) \<in> set new1 \<longrightarrow> k \<notin> fst ` set ?ps1
                 \<and> (\<exists>d\<in>set (possible_locations e dump sp vp k).
                       (\<exists>f\<in>set (all_prop_locations e). is_file e (truediv d f))
                       \<and> v = AndroidPartition k d)" by blast
    let ?new = "(m, AndroidPartition m d) # new1"
    have 1: "search_all e dump (m # ms) ps = Inr (ps @ ?new)" using d(4) n(1) by simp
    have 2: "subseq (map fst ?new) (m # ms)" using n(2) by simp
    have "m \<notin> fst ` set new1"
    proof
      assume "m \<in> fst ` set new1"
      then obtain v where "(m, v) \<in> set new1" by force
      then have "m \<notin> fst ` set ?ps1" using n(4) by blast
      then show False by simp
    qed
    then have 3: "distinct (map fst ?new)" using n(3) by simp
    have 4: "\<forall>k v. (k, v) \<in> set ?new \<longrightarrow> k \<notin> fst ` set ps
                 \<and> (\<exists>d\<in>set (possible_locations e dump sp vp k).
                       (\<exists>f\<in>set (all_prop_locations e). is_file e (truediv d f))
                       \<and> v = AndroidPartition k d)"
    proof (intro allI impI)
      fix k v assume "(k, v) \<in> set ?new"
      then consider "k = m" "v = AndroidPartition m d" | "(k, v) \<in> set new1" by auto
      then show "k \<notin> fst ` set ps
                 \<and> (\<exists>d\<in>set (possible_locations e dump sp vp k).
                       (\<exists>f\<in>set (all_prop_locations e). is_file e (truediv d f))
                       \<and> v = AndroidPartition k d)"
      proof cases
        case 1
        then show ?thesis using d(1,2,3) by blast
      next
        case 2
        then have "k \<notin> fst ` set ?ps1
                 \<and> (\<exists>d\<in>set (possible_locations e dump sp vp k).
                       (\<exists>f\<in>set (all_prop_locations e). is_file e (truediv d f))
                       \<and> v = AndroidPartition k d)" using n(4) by blast
        then show ?thesis by simp
      qed
    qed
    show ?thesis using 1 2 3 4 by (intro exI [of _ ?new] conjI)
  qed
qed

lemma init_system_missing:
  assumes "\<forall>d\<in>set (get_extended_search_locations dump ''system'').
             \<forall>f\<in>set (all_prop_locations e). \<not> is_file e (truediv d f)"
  shows "init e dump = Inl (SystemNotFound (get_extended_search_locations dump ''system''))"
proof -
  have "mandatory_loop e SYSTEM (all_prop_locations e)
          (get_extended_search_locations dump ''system'') False []
        = ([], List.product (get_extended_search_locations dump ''system'') (all_prop_locations e))"
    using assms by (rule mandatory_loop_miss)
  then show ?thesis by (simp add: init_def)
qed

lemma system_phase:
  assumes "get_extended_search_locations dump ''system'' = pre @ S # post"
    and "\<forall>d\<in>set pre. \<forall>f\<in>set (all_prop_locations e). \<not> is_file e (truediv d f)"
    and "\<exists>f\<in>set (all_prop_locations e). is_file e (truediv S f)"
  shows "fst (mandatory_loop e SYSTEM (all_prop_locations e)
               (get_extended_search_locations dump ''system'') False [])
          = [(SYSTEM, AndroidPartition SYSTEM S)]"
  using mandatory_loop_hit [OF assms(2,3), of SYSTEM post "[]"] assms(1) by simp

lemma vendor_phase_hit:
  assumes "\<forall>d\<in>set vpre. \<forall>f\<in>set (all_prop_locations e). \<not> is_file e (truediv d f)"
    and "\<exists>f\<in>set (all_prop_locations e). is_file e (truediv V f)"
  shows "fst (mandatory_loop e VENDOR (all_prop_locations e) (vpre @ V # vpost) False
               [(SYSTEM, AndroidPartition SYSTEM S)])
          = [(SYSTEM, AndroidPartition SYSTEM S), (VENDOR, AndroidPartition VENDOR V)]"
  using mandatory_loop_hit [OF assms, of VENDOR vpost "[(SYSTEM, AndroidPartition SYSTEM S)]"]
  by simp

lemma init_vendor_missing:
  assumes "get_extended_search_locations dump ''system'' = pre @ S # post"
    and "\<forall>d\<in>set pre. \<forall>f\<in>set (all_prop_locations e). \<not> is_file e (truediv d f)"
    and "\<exists>f\<in>set (all_prop_locations e). is_file e (truediv S f)"
    and "\<forall>d\<in>set (truediv_str S ''vendor'' # get_extended_search_locations dump ''vendor'').
           \<forall>f\<in>set (all_prop_locations e). \<not> is_file e (truediv d f)"
  shows "init e dump = Inl (VendorNotFound
           (truediv_str S ''vendor'' # get_extended_search_locations dump ''vendor''))"
proof -
  let ?vlocs = "truediv_str S ''vendor'' # get_extended_search_locations dump ''vendor''"
  have v: "mandatory_loop e VENDOR (all_prop_locations e) ?vlocs False
             [(SYSTEM, AndroidPartition SYSTEM S)]
           = ([(SYSTEM, AndroidPartition SYSTEM S)], List.product ?vlocs (all_prop_locations e))"
    using assms(4) by (rule mandatory_loop_miss)
  show ?thesis
    by (simp add: init_def system_phase [OF assms(1,2,3)] v del: mandatory_loop.simps)
qed

lemma init_found:
  assumes "get_extended_search_locations dump ''system'' = pre @ S # post"
    and "\<forall>d\<in>set pre. \<forall>f\<in>set (all_prop_locations e). \<not> is_file e (truediv d f)"
    and "\<exists>f\<in>set (all_prop_locations e). is_file e (truediv S f)"
    and "truediv_str S ''vendor'' # get_extended_search_locations dump ''vendor''
           = vpre @ V # vpost"
    and "\<forall>d\<in>set vpre. \<forall>f\<in>set (all_prop_locations e). \<not> is_file e (truediv d f)"
    and "\<exists>f\<in>set (all_prop_locations e). is_file e (truediv V f)"
  shows "\<exists>new. init e dump =
            Inr \<lparr>dump_path = dump,
                 partitions = (SYSTEM, AndroidPartition SYSTEM S)
                                # (VENDOR, AndroidPartition VENDOR V) # new,
                 system = AndroidPartition SYSTEM S,
                 vendor = AndroidPartition VENDOR V\<rparr>
           \<and> subseq (map fst new)
                (filter (\<lambda>model. model \<noteq> SYSTEM) (from_group_SSI e)
                 @ filter (\<lambda>model. model \<noteq> VENDOR) (from_group_TREBLE e))
           \<and> distinct (map fst new)
           \<and> (\<forall>k v. (k, v) \<in> set new \<longrightarrow> k \<noteq> SYSTEM \<and> k \<noteq> VENDOR
                 \<and> (\<exists>d\<in>set (possible_locations e dump (AndroidPartition SYSTEM S)
                                  (AndroidPartition VENDOR V) k).
                       (\<exists>f\<in>set (all_prop_locations e). is_file e (truediv d f))
                       \<and> v = AndroidPartition k d))"
proof -
  let ?sp = "AndroidPartition SYSTEM S" and ?vp = "AndroidPartition VENDOR V"
  let ?ps2 = "[(SYSTEM, ?sp), (VENDOR, ?vp)]"
  let ?ssi = "filter (\<lambda>model. model \<noteq> SYSTEM) (from_group_SSI e)"
  let ?treble = "filter (\<lambda>model. model \<noteq> VENDOR) (from_group_TREBLE e)"
  let ?ok = "\<lambda>ps k v. k \<notin> fst ` set ps
                 \<and> (\<exists>d\<in>set (possible_locations e dump ?sp ?vp k).
                       (\<exists>f\<in>set (all_prop_locations e). is_file e (truediv d f))
                       \<and> v = AndroidPartition k d)"
  have s2: "map_of ?ps2 SYSTEM = Some ?sp" "map_of ?ps2 VENDOR = Some ?vp" by simp_all
  from search_all_shape [OF s2, of e dump ?ssi]
  obtain new1 where n1: "search_all e dump ?ssi ?ps2 = Inr (?ps2 @ new1)"
    "subseq (map fst new1) ?ssi" "distinct (map fst new1)"
    "\<forall>k v. (k, v) \<in> set new1 \<longrightarrow> ?ok ?ps2 k v" by blast
  have s3: "map_of (?ps2 @ new1) SYSTEM = Some ?sp" "map_of (?ps2 @ new1) VENDOR = Some ?vp"
    by simp_all
  from search_all_shape [OF s3, of e dump ?treble]
  obtain new2 where n2: "search_all e dump ?treble (?ps2 @ new1) = Inr ((?ps2 @ new1) @ new2)"
    "subseq (map fst new2) ?treble" "distinct (map fst new2)"
    "\<forall>k v. (k, v) \<in> set new2 \<longrightarrow> ?ok (?ps2 @ new1) k v" by blast
  have v: "fst (mandatory_loop e VENDOR (all_prop_locations e)
                 (truediv_str S ''vendor'' # get_extended_search_locations dump ''vendor'')
                 False [(SYSTEM, ?sp)]) = ?ps2"
    unfolding assms(4) using assms(5,6) by (rule vendor_phase_hit)
  have 1: "init e dump =
            Inr \<lparr>dump_path = dump, partitions = (SYSTEM, ?sp) # (VENDOR, ?vp) # (new1 @ new2),
                 system = ?sp, vendor = ?vp\<rparr>"
    using n1(1) n2(1)
    by (simp add: init_def system_phase [OF assms(1,2,3)] v del: mandatory_loop.simps)
  have 2: "subseq (map fst (new1 @ new2)) (?ssi @ ?treble)"
    using list_emb_append_mono [OF n1(2) n2(2)] by simp
  have disj: "fst ` set new1 \<inter> fst ` set new2 = {}"
  proof (rule ccontr)
    assume "fst ` set new1 \<inter> fst ` set new2 \<noteq> {}"
    then obtain k where k: "k \<in> fst ` set new1" "k \<in> fst ` set new2" by blast
    from k(2) obtain v where "(k, v) \<in> set new2" by force
    then have "k \<notin> fst ` set (?ps2 @ new1)" using n2(4) by blast
    then show False using k(1) by simp
  qed
  have 3: "distinct (map fst (new1 @ new2))"
    using n1(3) n2(3) disj by simp
  have 4: "\<forall>k v. (k, v) \<in> set (new1 @ new2) \<longrightarrow> k \<noteq> SYSTEM \<and> k \<noteq> VENDOR
                 \<and> (\<exists>d\<in>set (possible_locations e dump ?sp ?vp k).
                       (\<exists>f\<in>set (all_prop_locations e). is_file e (truediv d f))
                       \<and> v = AndroidPartition k d)"
  proof (intro allI impI)
    fix k v assume "(k, v) \<in> set (new1 @ new2)"
    then consider "(k, v) \<in> set new1" | "(k, v) \<in> set new2" by auto
    then show "k \<noteq> SYSTEM \<and> k \<noteq> VENDOR
                 \<and> (\<exists>d\<in>set (possible_locations e dump ?sp ?vp k).
                       (\<exists>f\<in>set (all_prop_locations e). is_file e (truediv d f))
                       \<and> v = AndroidPartition k d)"
    proof cases
      case 1
      then have "?ok ?ps2 k v" using n1(4) by blast
      then show ?thesis by auto
    next
      case 2
      then have "?ok (?ps2 @ new1) k v" using n2(4) by blast
      then show ?thesis by auto
    qed
  qed
  show ?thesis using 1 2 3 4 by (intro exI [of _ "new1 @ new2"] conjI)
qed

lemma init_success:
  assumes "init e dump = Inr P"
  shows "\<exists>S V new.
           P = \<lparr>dump_path = dump,
                partitions = (SYSTEM, AndroidPartition SYSTEM S)
                               # (VENDOR, AndroidPartition VENDOR V) # new,
                system = AndroidPartition SYSTEM S,
                vendor = AndroidPartition VENDOR V\<rparr>
           \<and> subseq (map fst new)
                (filter (\<lambda>model. model \<noteq> SYSTEM) (from_group_SSI e)
                 @ filter (\<lambda>model. model \<noteq> VENDOR) (from_group_TREBLE e))
           \<and> distinct (map fst new)
           \<and> (\<forall>k v. (k, v) \<in> set new \<longrightarrow> k \<noteq> SYSTEM \<and> k \<noteq> VENDOR
                 \<and> (\<exists>d\<in>set (possible_locations e dump (AndroidPartition SYSTEM S)
                                  (AndroidPartition VENDOR V) k).
                       (\<exists>f\<in>set (all_prop_locations e). is_file e (truediv d f))
                       \<and> v = AndroidPartition k d))"
proof -
  let ?hit = "\<lambda>d. \<exists>f\<in>set (all_prop_locations e). is_file e (truediv d f)"
  have sys_hit: "\<exists>d\<in>set (get_extended_search_locations dump ''system''). ?hit d"
  proof (rule ccontr)
    assume "\<not> (\<exists>d\<in>set (get_extended_search_locations dump ''system''). ?hit d)"
    then have "\<forall>d\<in>set (get_extended_search_locations dump ''system'').
             \<forall>f\<in>set (all_prop_locations e). \<not> is_file e (truediv d f)" by blast
    from init_system_missing [OF this] assms show False by simp
  qed
  from split_list_first_prop [OF sys_hit]
  obtain pre S post where s: "get_extended_search_locations dump ''system'' = pre @ S # post"
    "?hit S" "\<forall>d\<in>set pre. \<not> ?hit d" by blast
  have s3: "\<forall>d\<in>set pre. \<forall>f\<in>set (all_prop_locations e). \<not> is_file e (truediv d f)"
    using s(3) by blast
  let ?vlocs = "truediv_str S ''vendor'' # get_extended_search_locations dump ''vendor''"
  have ven_hit: "\<exists>d\<in>set ?vlocs. ?hit d"
  proof (rule ccontr)
    assume "\<not> (\<exists>d\<in>set ?vlocs. ?hit d)"
    then have "\<forall>d\<in>set ?vlocs. \<forall>f\<in>set (all_prop_locations e). \<not> is_file e (truediv d f)"
      by blast
    from init_vendor_missing [OF s(1) s3 s(2) this] assms show False by simp
  qed
  from split_list_first_prop [OF ven_hit]
  obtain vpre V vpost where v: "?vlocs = vpre @ V # vpost"
    "?hit V" "\<forall>d\<in>set vpre. \<not> ?hit d" by blast
  have v3: "\<forall>d\<in>set vpre. \<forall>f\<in>set (all_prop_locations e). \<not> is_file e (truediv d f)"
    using v(3) by blast
  from init_found [OF s(1) s3 s(2) v(1) v3 v(2)]
  obtain new where n: "init e dump =
            Inr \<lparr>dump_path = dump,
                 partitions = (SYSTEM, AndroidPartition SYSTEM S)
                                # (VENDOR, AndroidPartition VENDOR V) # new,
                 system = AndroidPartition SYSTEM S,
                 vendor = AndroidPartition VENDOR V\<rparr>"
    "subseq (map fst new)
                (filter (\<lambda>model. model \<noteq> SYSTEM) (from_group_SSI e)
                 @ filter (\<lambda>model. model \<noteq> VENDOR) (from_group_TREBLE e))"
    "distinct (map fst new)"
    "\<forall>k v. (k, v) \<in> set new \<longrightarrow> k \<noteq> SYSTEM \<and> k \<noteq> VENDOR
                 \<and> (\<exists>d\<in>set (possible_locations e dump (AndroidPartition SYSTEM S)
                                  (AndroidPartition VENDOR V) k).
                       (\<exists>f\<in>set (all_prop_locations e). is_file e (truediv d f))
                       \<and> v = AndroidPartition k d)" by blast
  have "P = \<lparr>dump_path = dump,
                partitions = (SYSTEM, AndroidPartition SYSTEM S)
                               # (VENDOR, AndroidPartition VENDOR V) # new,
                system = AndroidPartition SYSTEM S,
                vendor = AndroidPartition VENDOR V\<rparr>"
    using n(1) assms by simp
  then show ?thesis using n(2,3,4) by (intro exI conjI)
qed

lemma found_models:
  assumes "\<forall>k v. (k, v) \<in> set new \<longrightarrow> (\<exists>d. v = AndroidPartition k d)"
  shows "map ap_model (map snd new) = map fst new"
  using assms
proof (induction new)
  case Nil
  show ?case by simp
next
  case (Cons a new)
  obtain k v where a: "a = (k, v)" by (cases a)
  then have "\<exists>d. v = AndroidPartition k d" using Cons.prems by simp
  then have "ap_model v = k" by auto
  moreover have "map ap_model (map snd new) = map fst new"
    using Cons.prems by (intro Cons.IH) simp
  ultimately show ?case using a by simp
qed

lemma unique_loop_head:
  "unique_loop {} [] (x # xs) = x # unique_loop {x} [] xs"
  using unique_loop_append [of "{x}" "[x]" xs] by simp

lemma system_candidates_head:
  "\<exists>post. get_extended_search_locations dump ''system'' = truediv_str dump ''system'' # post"
  by (simp add: get_extended_search_locations_def locations_def extended_locations_def
      unique_loop_head del: unique_loop.simps)

lemma vendor_candidates_head:
  "\<exists>post. get_extended_search_locations dump ''vendor'' = truediv_str dump ''vendor'' # post"
  by (simp add: get_extended_search_locations_def locations_def extended_locations_def
      unique_loop_head del: unique_loop.simps)

lemma extended_build_prop_locations:
  "get_extended_build_prop_locations =
     [Path NoRoot [''build.prop''], Path NoRoot [''default.prop''], Path NoRoot [''prop.default''],
      Path NoRoot [''etc'', ''build.prop''], Path NoRoot [''system'', ''build.prop''],
      Path NoRoot [''vendor'', ''build.prop''], Path NoRoot [''product'', ''build.prop''],
      Path NoRoot [''system_ext'', ''build.prop''], Path NoRoot [''odm'', ''build.prop'']]"
  by (simp add: get_extended_build_prop_locations_def Path_of_str_def splitroot_def)

lemma Path_of_str_build_prop:
  "Path_of_str ''build.prop'' = Path NoRoot [''build.prop'']"
  by (simp add: Path_of_str_def splitroot_def)

section \<open>The example dumps, evaluated\<close>

lemma example_anchors:
  "map_of example_table SYSTEM = Some (AndroidPartition SYSTEM (Path Slash [''dump'', ''system'']))"
  "map_of example_table VENDOR = Some (AndroidPartition VENDOR (Path Slash [''dump'', ''vendor'']))"
  "OtherModel n \<notin> fst ` set example_table"
  "SYSTEM \<in> fst ` set example_table"
  "VENDOR \<in> fst ` set example_table"
  by (simp_all add: example_table_def)

lemma example_prop_locations:
  "all_prop_locations (example_env files) =
     [Path NoRoot [''build.prop''], Path NoRoot [''default.prop''], Path NoRoot [''prop.default''],
      Path NoRoot [''etc'', ''build.prop''], Path NoRoot [''system'', ''build.prop''],
      Path NoRoot [''vendor'', ''build.prop''], Path NoRoot [''product'', ''build.prop''],
      Path NoRoot [''system_ext'', ''build.prop''], Path NoRoot [''odm'', ''build.prop'']]"
  by (simp add: all_prop_locations_def example_env_def get_extended_build_prop_locations_def
      Path_of_str_def splitroot_def)

lemma example_product_locations:
  "possible_locations (example_env files) example_dump
     (AndroidPartition SYSTEM (Path Slash [''dump'', ''system'']))
     (AndroidPartition VENDOR (Path Slash [''dump'', ''vendor''])) (OtherModel 0) =
   [Path Slash [''dump'', ''product''],
    Path Slash [''dump'', ''product'', ''product''],
    Path Slash [''dump'', ''boot'', ''ramdisk'', ''product''],
    Path Slash [''dump'', ''recovery'', ''ramdisk'', ''product''],
    Path Slash [''dump'', ''vendor_boot'', ''ramdisk'', ''product''],
    Path Slash [''product''],
    Path Slash [''ramdisk'', ''product''],
    Path Slash [''vendor_ramdisk'', ''product''],
    Path Slash [''dump'', ''system'', ''product''],
    Path Slash [''dump'', ''vendor'', ''product''],
    Path Slash [''dump'', ''product'']]"
  by (simp add: possible_locations_def example_env_def example_name_def example_dump_def
      get_extended_search_locations_def locations_def extended_locations_def
      standard_locations_def global_locations_def truediv_str_def truediv_def parent_def
      Path_of_str_def splitroot_def)

lemma vendor_global_locations:
  "global_locations (Path r ps) ''vendor'' =
     [Path r (ps @ [''vendor'']),
      Path r (ps @ [''boot'', ''ramdisk'', ''vendor'']),
      Path r (ps @ [''recovery'', ''ramdisk'', ''vendor'']),
      Path r (ps @ [''vendor_boot'', ''ramdisk'', ''vendor'']),
      Path r (butlast ps @ [''vendor'']),
      Path r (butlast ps @ [''ramdisk'', ''vendor'']),
      Path r (butlast ps @ [''vendor_ramdisk'', ''vendor'']),
      Path r (butlast (butlast ps) @ [''vendor''])]"
  by (simp add: global_locations_def truediv_str_def Path_of_str_literals truediv_relative
      parent_def)

lemma vendor_nested_absent:
  "Path r (ps @ [''vendor'', ''vendor'']) \<notin> set (get_extended_search_locations (Path r ps) ''vendor'')"
proof -
  have len: "length xs \<noteq> length (ps @ [''vendor'', ''vendor'']) \<Longrightarrow> xs \<noteq> ps @ [''vendor'', ''vendor'']"
    for xs :: "string list" by auto
  have "Path r (ps @ [''vendor'', ''vendor'']) \<notin> set (locations (Path r ps) ''vendor'')"
  proof (cases "ps = []")
    case True
    then show ?thesis
      by (simp add: vendor_locations vendor_global_locations)
  next
    case False
    then have "length (butlast ps) < length ps" by simp
    moreover have "length (butlast (butlast ps)) < length ps" using False by simp
    ultimately have
      "butlast ps @ [''ramdisk'', ''vendor''] \<noteq> ps @ [''vendor'', ''vendor'']"
      "butlast ps @ [''vendor_ramdisk'', ''vendor''] \<noteq> ps @ [''vendor'', ''vendor'']"
      "butlast ps @ [''vendor''] \<noteq> ps @ [''vendor'', ''vendor'']"
      "butlast (butlast ps) @ [''vendor''] \<noteq> ps @ [''vendor'', ''vendor'']"
      by (intro len; simp)+
    then show ?thesis
      by (simp add: vendor_locations vendor_global_locations)
  qed
  then show ?thesis
    by (simp add: get_extended_search_locations_def set_unique_loop)
qed

section \<open>The candidate locations\<close>

text \<open>
  C6: for every root \<open>R\<close> and every partition name \<open>N\<close> (empty or not), the list the
  generator returns has no two equal paths, holds exactly the paths of the list
  \<^verbatim>\<open>locations\<close> it was built from, and lists them in the order of their first
  occurrences there: of two paths of the result, the earlier one is the one whose first
  occurrence in \<^verbatim>\<open>locations\<close> comes first.
\<close>

theorem candidates_unique_first_occurrence:
  "distinct (get_extended_search_locations R N)
   \<and> set (get_extended_search_locations R N) = set (locations R N)
   \<and> sorted_wrt (\<lambda>x y. length (takeWhile (\<lambda>z. z \<noteq> x) (locations R N))
                       < length (takeWhile (\<lambda>z. z \<noteq> y) (locations R N)))
       (get_extended_search_locations R N)"
proof -
  have "distinct (unique_loop {} [] (locations R N))"
    by (rule distinct_unique_loop) simp_all
  moreover have "set (unique_loop {} [] (locations R N)) = set (locations R N)"
    by (simp add: set_unique_loop)
  moreover have "sorted_wrt (\<lambda>x y. length (takeWhile (\<lambda>z. z \<noteq> x) ([] @ locations R N))
                       < length (takeWhile (\<lambda>z. z \<noteq> y) ([] @ locations R N)))
       (unique_loop {} [] (locations R N))"
    by (rule unique_loop_first_occurrence) simp_all
  ultimately show ?thesis
    by (simp add: get_extended_search_locations_def)
qed

text \<open>
  C1, as the code has it: for every root \<open>R\<close> the path \<^verbatim>\<open>R/vendor/vendor\<close> is not
  among the candidates the generator returns for the name \<open>vendor\<close>.  For every root \<open>R\<close> the generator's list for \<open>vendor\<close> begins with \<^verbatim>\<open>R/vendor\<close>,
  \<^verbatim>\<open>R/boot/ramdisk/vendor\<close>, \<^verbatim>\<open>R/recovery/ramdisk/vendor\<close>,
  \<^verbatim>\<open>R/vendor_boot/ramdisk/vendor\<close>; and when the last component of \<open>R\<close> is neither
  \<^verbatim>\<open>ramdisk\<close> nor \<^verbatim>\<open>vendor_ramdisk\<close> (or \<open>R\<close> has no component), these four are
  followed by \<^verbatim>\<open>R-parent/ramdisk/vendor\<close> and \<^verbatim>\<open>R-parent/vendor_ramdisk/vendor\<close>.
  (For a root ending in one of the two names, one of the last two paths equals
  \<^verbatim>\<open>R/vendor\<close> and is dropped as a duplicate.)
\<close>

theorem vendor_specific_prefix:
  "take 4 (get_extended_search_locations R ''vendor'') =
     [truediv_str R ''vendor'',
      truediv_str (truediv_str (truediv_str R ''boot'') ''ramdisk'') ''vendor'',
      truediv_str (truediv_str (truediv_str R ''recovery'') ''ramdisk'') ''vendor'',
      truediv_str (truediv_str (truediv_str R ''vendor_boot'') ''ramdisk'') ''vendor'']
   \<and> (path_parts R = [] \<or> last (path_parts R) \<notin> {''ramdisk'', ''vendor_ramdisk''} \<longrightarrow>
      take 6 (get_extended_search_locations R ''vendor'') =
        [truediv_str R ''vendor'',
         truediv_str (truediv_str (truediv_str R ''boot'') ''ramdisk'') ''vendor'',
         truediv_str (truediv_str (truediv_str R ''recovery'') ''ramdisk'') ''vendor'',
         truediv_str (truediv_str (truediv_str R ''vendor_boot'') ''ramdisk'') ''vendor'',
         truediv_str (truediv_str (parent R) ''ramdisk'') ''vendor'',
         truediv_str (truediv_str (parent R) ''vendor_ramdisk'') ''vendor''])
   \<and> truediv_str (truediv_str R ''vendor'') ''vendor''
         \<notin> set (get_extended_search_locations R ''vendor'')"
proof (cases R)
  case (Path r ps)
  let ?four = "[Path r (ps @ [''vendor'']),
      Path r (ps @ [''boot'', ''ramdisk'', ''vendor'']),
      Path r (ps @ [''recovery'', ''ramdisk'', ''vendor'']),
      Path r (ps @ [''vendor_boot'', ''ramdisk'', ''vendor''])]"
  let ?two = "[Path r (butlast ps @ [''ramdisk'', ''vendor'']),
        Path r (butlast ps @ [''vendor_ramdisk'', ''vendor''])]"
  have d4: "distinct ?four" by simp
  have "take 4 (unique_loop {} [] (?four @ (?two @ global_locations R ''vendor''))) = ?four"
    using d4 by (rule unique_loop_keeps_distinct_prefix) simp
  then have first: "take 4 (get_extended_search_locations R ''vendor'') = ?four"
    using vendor_locations [of r ps] Path
    by (simp add: get_extended_search_locations_def del: unique_loop.simps)
  have second: "take 6 (get_extended_search_locations R ''vendor'') = ?four @ ?two"
    if c: "ps = [] \<or> last ps \<notin> {''ramdisk'', ''vendor_ramdisk''}"
  proof -
    have d6: "distinct (?four @ ?two)"
    proof (cases ps rule: rev_cases)
      case Nil
      then show ?thesis by simp
    next
      case (snoc qs l)
      then show ?thesis using c by auto
    qed
    have "take 6 (unique_loop {} [] ((?four @ ?two) @ global_locations R ''vendor'')) = ?four @ ?two"
      using d6 by (rule unique_loop_keeps_distinct_prefix) simp
    then show ?thesis
      using vendor_locations [of r ps] Path
      by (simp add: get_extended_search_locations_def del: unique_loop.simps)
  qed
  have third: "Path r (ps @ [''vendor'', ''vendor''])
                 \<notin> set (get_extended_search_locations R ''vendor'')"
    unfolding Path by (rule vendor_nested_absent)
  show ?thesis
    using first second third Path
    by (simp add: truediv_str_def Path_of_str_literals truediv_relative parent_def)
qed

theorem vendor_specific_prefix_witness:
  "(path_parts example_dump = [] \<or> last (path_parts example_dump) \<notin> {''ramdisk'', ''vendor_ramdisk''})
   \<and> take 6 (get_extended_search_locations example_dump ''vendor'') =
     [Path Slash [''dump'', ''vendor''],
      Path Slash [''dump'', ''boot'', ''ramdisk'', ''vendor''],
      Path Slash [''dump'', ''recovery'', ''ramdisk'', ''vendor''],
      Path Slash [''dump'', ''vendor_boot'', ''ramdisk'', ''vendor''],
      Path Slash [''ramdisk'', ''vendor''],
      Path Slash [''vendor_ramdisk'', ''vendor'']]
   \<and> Path Slash [''dump'', ''vendor'', ''vendor'']
         \<notin> set (get_extended_search_locations example_dump ''vendor'')"
  using vendor_specific_prefix [of example_dump]
  by (simp add: example_dump_def truediv_str_def Path_of_str_literals truediv_relative parent_def)

text \<open>
  C1 as stated fails: for the root \<^verbatim>\<open>/dump\<close> the list does not begin with the seven
  paths obtained from the \<open>system\<close> set by substitution.
\<close>

theorem vendor_prefix_counterexample:
  "take 7 (get_extended_search_locations example_dump ''vendor'') \<noteq>
     [truediv_str example_dump ''vendor'',
      truediv_str (truediv_str example_dump ''vendor'') ''vendor'',
      truediv_str (truediv_str (truediv_str example_dump ''boot'') ''ramdisk'') ''vendor'',
      truediv_str (truediv_str (truediv_str example_dump ''recovery'') ''ramdisk'') ''vendor'',
      truediv_str (truediv_str (truediv_str example_dump ''vendor_boot'') ''ramdisk'') ''vendor'',
      truediv_str (truediv_str (parent example_dump) ''ramdisk'') ''vendor'',
      truediv_str (truediv_str (parent example_dump) ''vendor_ramdisk'') ''vendor'']"
  by code_simp

section \<open>The generic extended search\<close>

text \<open>
  C2: let the identity \<open>m\<close> be absent from a table that holds System and Vendor, and
  let \<open>(d, f)\<close> be the first pair, in the order of iteration (candidate directories
  outside, property files inside), for which \<open>d / f\<close> is a regular file.  Then the
  generic extended search records \<open>m\<close> with the directory \<open>d\<close>, and the existence
  checks it performs are exactly those of the pairs up to and including \<open>(d, f)\<close>: no
  later property file and no later candidate directory is probed.
\<close>

theorem extended_search_short_circuit:
  assumes "m \<notin> fst ` set ps"
    and "map_of ps SYSTEM = Some sp" and "map_of ps VENDOR = Some vp"
    and "possible_locations e dump sp vp m = pre @ d # post"
    and "all_prop_locations e = fpre @ f # fpost"
    and "\<forall>d'\<in>set pre. \<forall>f'\<in>set (all_prop_locations e). \<not> is_file e (truediv d' f')"
    and "\<forall>f'\<in>set fpre. \<not> is_file e (truediv d f')"
    and "is_file e (truediv d f)"
  shows "search_for_partition_extended e dump ps m =
           Inr (ps @ [(m, AndroidPartition m d)],
                List.product pre (all_prop_locations e) @ map (Pair d) fpre @ [(d, f)])"
proof -
  have "extended_loop e m (fpre @ f # fpost) (pre @ d # post) ps =
           (ps @ [(m, AndroidPartition m d)],
            List.product pre (fpre @ f # fpost) @ map (Pair d) fpre @ [(d, f)])"
    using assms(1,6,7,8) unfolding assms(5) by (rule extended_loop_hit)
  then show ?thesis
    using assms(4,5) by (simp add: search_with_anchors [OF assms(2,3)])
qed

theorem extended_search_short_circuit_witness:
  "search_for_partition_extended
     (example_env [Path Slash [''dump'', ''product'', ''product'', ''etc'', ''build.prop'']])
     example_dump example_table (OtherModel 0) =
   Inr (example_table @
          [(OtherModel 0, AndroidPartition (OtherModel 0) (Path Slash [''dump'', ''product'', ''product'']))],
        List.product [Path Slash [''dump'', ''product'']]
          (all_prop_locations
             (example_env [Path Slash [''dump'', ''product'', ''product'', ''etc'', ''build.prop'']]))
        @ map (Pair (Path Slash [''dump'', ''product'', ''product'']))
            [Path NoRoot [''build.prop''], Path NoRoot [''default.prop''],
             Path NoRoot [''prop.default'']]
        @ [(Path Slash [''dump'', ''product'', ''product''], Path NoRoot [''etc'', ''build.prop''])])"
proof -
  let ?e = "example_env [Path Slash [''dump'', ''product'', ''product'', ''etc'', ''build.prop'']]"
  let ?sp = "AndroidPartition SYSTEM (Path Slash [''dump'', ''system''])"
  let ?vp = "AndroidPartition VENDOR (Path Slash [''dump'', ''vendor''])"
  let ?d = "Path Slash [''dump'', ''product'', ''product'']"
  let ?post = "[Path Slash [''dump'', ''boot'', ''ramdisk'', ''product''],
    Path Slash [''dump'', ''recovery'', ''ramdisk'', ''product''],
    Path Slash [''dump'', ''vendor_boot'', ''ramdisk'', ''product''],
    Path Slash [''product''],
    Path Slash [''ramdisk'', ''product''],
    Path Slash [''vendor_ramdisk'', ''product''],
    Path Slash [''dump'', ''system'', ''product''],
    Path Slash [''dump'', ''vendor'', ''product''],
    Path Slash [''dump'', ''product'']]"
  let ?fpre = "[Path NoRoot [''build.prop''], Path NoRoot [''default.prop''],
               Path NoRoot [''prop.default'']]"
  let ?fpost = "[Path NoRoot [''system'', ''build.prop''],
      Path NoRoot [''vendor'', ''build.prop''], Path NoRoot [''product'', ''build.prop''],
      Path NoRoot [''system_ext'', ''build.prop''], Path NoRoot [''odm'', ''build.prop'']]"
  have h1: "OtherModel 0 \<notin> fst ` set example_table" by (rule example_anchors)
  have h2: "map_of example_table SYSTEM = Some ?sp" by (rule example_anchors)
  have h3: "map_of example_table VENDOR = Some ?vp" by (rule example_anchors)
  have h4: "possible_locations ?e example_dump ?sp ?vp (OtherModel 0) =
              [Path Slash [''dump'', ''product'']] @ ?d # ?post"
    by (simp add: example_product_locations)
  have h5: "all_prop_locations ?e = ?fpre @ Path NoRoot [''etc'', ''build.prop''] # ?fpost"
    by (simp add: example_prop_locations)
  have h6: "\<forall>d'\<in>set [Path Slash [''dump'', ''product'']].
              \<forall>f'\<in>set (all_prop_locations ?e). \<not> is_file ?e (truediv d' f')"
    unfolding example_prop_locations by (simp add: example_env_def truediv_def)
  have h7: "\<forall>f'\<in>set ?fpre. \<not> is_file ?e (truediv ?d f')"
    by (simp add: example_env_def truediv_def)
  have h8: "is_file ?e (truediv ?d (Path NoRoot [''etc'', ''build.prop'']))"
    by (simp add: example_env_def truediv_def)
  show ?thesis
    by (rule extended_search_short_circuit [OF h1 h2 h3 h4 h5 h6 h7 h8])
qed

text \<open>
  C4 fails on the code: in \<^verbatim>\<open>_search_for_partition_extended\<close> the candidate
  \<^verbatim>\<open>dump_path / model.name\<close> is appended to a list that already begins with it, after
  the duplicates were removed.  For the dump \<^verbatim>\<open>/dump\<close> with only
  \<^verbatim>\<open>system/build.prop\<close> and \<^verbatim>\<open>vendor/build.prop\<close>, the search for \<^verbatim>\<open>product\<close> finds
  nothing, its sequence of existence checks has a repeated pair, and the pair
  \<^verbatim>\<open>(/dump/product, build.prop)\<close> is probed twice.
\<close>

theorem repeated_probe:
  "(case search_for_partition_extended
           (example_env [Path Slash [''dump'', ''system'', ''build.prop''],
                         Path Slash [''dump'', ''vendor'', ''build.prop'']])
           example_dump example_table (OtherModel 0) of
      Inl err \<Rightarrow> False
    | Inr (ps, log) \<Rightarrow>
        ps = example_table \<and> \<not> distinct log
        \<and> count_list log (Path Slash [''dump'', ''product''], Path NoRoot [''build.prop'']) = 2)"
  by code_simp

text \<open>
  C10: the generic extended search for an identity that is a key of the table (which
  holds System and Vendor) returns the table as it was and probes nothing; and when an
  identity is searched twice in a row, the second search leaves the table of the first
  as it is, and probes nothing if the first search found the identity.
\<close>

theorem extended_search_present_unchanged:
  "(m \<in> fst ` set ps \<and> SYSTEM \<in> fst ` set ps \<and> VENDOR \<in> fst ` set ps \<longrightarrow>
      search_for_partition_extended e dump ps m = Inr (ps, []))
   \<and> (search_for_partition_extended e dump ps m = Inr (ps', log)
        \<and> search_for_partition_extended e dump ps' m = Inr (ps'', log') \<longrightarrow>
      ps'' = ps' \<and> (m \<in> fst ` set ps' \<longrightarrow> log' = []))"
proof -
  have first: "search_for_partition_extended e dump ps m = Inr (ps, [])"
    if a: "m \<in> fst ` set ps \<and> SYSTEM \<in> fst ` set ps \<and> VENDOR \<in> fst ` set ps"
  proof -
    from a have "SYSTEM \<in> fst ` set ps" by simp
    then obtain sp where sp: "map_of ps SYSTEM = Some sp" by (rule key_present [THEN exE])
    from a have "VENDOR \<in> fst ` set ps" by simp
    then obtain vp where vp: "map_of ps VENDOR = Some vp" by (rule key_present [THEN exE])
    from a have "m \<in> fst ` set ps" by simp
    then show ?thesis using sp vp by (rule search_present)
  qed
  have second: "ps'' = ps' \<and> (m \<in> fst ` set ps' \<longrightarrow> log' = [])"
    if b: "search_for_partition_extended e dump ps m = Inr (ps', log)
        \<and> search_for_partition_extended e dump ps' m = Inr (ps'', log')"
  proof -
    from b have b1: "search_for_partition_extended e dump ps m = Inr (ps', log)"
      and b2: "search_for_partition_extended e dump ps' m = Inr (ps'', log')" by simp_all
    show ?thesis using search_twice [OF b1 b2] by simp
  qed
  show ?thesis using first second by blast
qed

theorem extended_search_present_unchanged_witness:
  "search_for_partition_extended (example_env []) example_dump example_table VENDOR
     = Inr (example_table, [])
   \<and> search_for_partition_extended
       (example_env [Path Slash [''dump'', ''product'', ''build.prop'']]) example_dump
       (example_table @ [(OtherModel 0, AndroidPartition (OtherModel 0) (Path Slash [''dump'', ''product'']))])
       (OtherModel 0)
     = Inr (example_table @ [(OtherModel 0, AndroidPartition (OtherModel 0) (Path Slash [''dump'', ''product'']))], [])"
proof -
  let ?e = "example_env [Path Slash [''dump'', ''product'', ''build.prop'']]"
  let ?ps' = "example_table @ [(OtherModel 0, AndroidPartition (OtherModel 0) (Path Slash [''dump'', ''product'']))]"
  have h1: "VENDOR \<in> fst ` set example_table \<and> SYSTEM \<in> fst ` set example_table
              \<and> VENDOR \<in> fst ` set example_table"
    by (simp add: example_anchors)
  have first: "search_for_partition_extended ?e example_dump example_table (OtherModel 0)
                 = Inr (?ps', [(Path Slash [''dump'', ''product''], Path NoRoot [''build.prop''])])"
    by code_simp
  have second: "search_for_partition_extended ?e example_dump ?ps' (OtherModel 0) = Inr (?ps', [])"
    by code_simp
  have both: "search_for_partition_extended ?e example_dump example_table (OtherModel 0)
                 = Inr (?ps', [(Path Slash [''dump'', ''product''], Path NoRoot [''build.prop''])])
              \<and> search_for_partition_extended ?e example_dump ?ps' (OtherModel 0) = Inr (?ps', [])"
    using first second by (rule conjI)
  have a: "search_for_partition_extended (example_env []) example_dump example_table VENDOR
     = Inr (example_table, [])"
    using extended_search_present_unchanged
      [of VENDOR example_table "example_env []" example_dump] h1 by (rule conjunct1 [THEN mp])
  have b: "?ps' = ?ps' \<and> (OtherModel 0 \<in> fst ` set ?ps' \<longrightarrow> ([]::probe list) = [])"
    using extended_search_present_unchanged
      [of "OtherModel 0" example_table ?e example_dump ?ps'
          "[(Path Slash [''dump'', ''product''], Path NoRoot [''build.prop''])]" ?ps' "[]"] both
    by (rule conjunct2 [THEN mp])
  show ?thesis using a second by (rule conjI)
qed

section \<open>The accessors\<close>

text \<open>
  C9: for a name the catalog resolves to no identity, \<^verbatim>\<open>get_partition_by_name\<close>
  returns \<^verbatim>\<open>None\<close>; the accessor has no failing branch.
\<close>

theorem unknown_name_absent:
  "from_name e name = None \<Longrightarrow> get_partition_by_name e self name = None"
  by (simp add: get_partition_by_name_def get_partition_def)

theorem unknown_name_absent_witness:
  "from_name (example_env []) ''unknown_partition'' = None
   \<and> (\<forall>self. get_partition_by_name (example_env []) self ''unknown_partition'' = None)"
proof -
  have h: "from_name (example_env []) ''unknown_partition'' = None"
    by (simp add: example_env_def)
  show ?thesis using h unknown_name_absent [OF h] by simp
qed

section \<open>The constructor\<close>

text \<open>
  C3: if no candidate directory of the System search contains any file of the combined
  property-file list, the constructor fails with the System assertion, whose message
  lists all the candidates of that search.  If System is found at \<open>S\<close> (the first
  candidate with a property file) and no candidate of the Vendor search, \<^verbatim>\<open>S/vendor\<close>
  followed by the generator's list, contains any such file, it fails with the Vendor
  assertion, whose message lists all of these.  In both cases no object is built.
\<close>

theorem mandatory_partition_missing:
  "((\<forall>d\<in>set (get_extended_search_locations dump ''system'').
        \<forall>f\<in>set (all_prop_locations e). \<not> is_file e (truediv d f)) \<longrightarrow>
      init e dump = Inl (SystemNotFound (get_extended_search_locations dump ''system'')))
   \<and> (get_extended_search_locations dump ''system'' = pre @ S # post
        \<and> (\<forall>d\<in>set pre. \<forall>f\<in>set (all_prop_locations e). \<not> is_file e (truediv d f))
        \<and> (\<exists>f\<in>set (all_prop_locations e). is_file e (truediv S f))
        \<and> (\<forall>d\<in>set (truediv_str S ''vendor'' # get_extended_search_locations dump ''vendor'').
              \<forall>f\<in>set (all_prop_locations e). \<not> is_file e (truediv d f)) \<longrightarrow>
      init e dump = Inl (VendorNotFound
        (truediv_str S ''vendor'' # get_extended_search_locations dump ''vendor'')))"
proof -
  have first: "init e dump = Inl (SystemNotFound (get_extended_search_locations dump ''system''))"
    if "\<forall>d\<in>set (get_extended_search_locations dump ''system'').
        \<forall>f\<in>set (all_prop_locations e). \<not> is_file e (truediv d f)"
    using that by (rule init_system_missing)
  have second: "init e dump = Inl (VendorNotFound
        (truediv_str S ''vendor'' # get_extended_search_locations dump ''vendor''))"
    if h: "get_extended_search_locations dump ''system'' = pre @ S # post
        \<and> (\<forall>d\<in>set pre. \<forall>f\<in>set (all_prop_locations e). \<not> is_file e (truediv d f))
        \<and> (\<exists>f\<in>set (all_prop_locations e). is_file e (truediv S f))
        \<and> (\<forall>d\<in>set (truediv_str S ''vendor'' # get_extended_search_locations dump ''vendor'').
              \<forall>f\<in>set (all_prop_locations e). \<not> is_file e (truediv d f))"
  proof -
    from h have h1: "get_extended_search_locations dump ''system'' = pre @ S # post"
      and h2: "\<forall>d\<in>set pre. \<forall>f\<in>set (all_prop_locations e). \<not> is_file e (truediv d f)"
      and h3: "\<exists>f\<in>set (all_prop_locations e). is_file e (truediv S f)"
      and h4: "\<forall>d\<in>set (truediv_str S ''vendor'' # get_extended_search_locations dump ''vendor'').
              \<forall>f\<in>set (all_prop_locations e). \<not> is_file e (truediv d f)"
      by simp_all
    show ?thesis using h1 h2 h3 h4 by (rule init_vendor_missing)
  qed
  show ?thesis using first second by (intro conjI impI)
qed

theorem mandatory_partition_missing_witness:
  "init (example_env []) example_dump
     = Inl (SystemNotFound (get_extended_search_locations example_dump ''system''))
   \<and> init (example_env [Path Slash [''dump'', ''system'', ''build.prop'']]) example_dump
     = Inl (VendorNotFound
        [Path Slash [''dump'', ''system'', ''vendor''],
         Path Slash [''dump'', ''vendor''],
         Path Slash [''dump'', ''boot'', ''ramdisk'', ''vendor''],
         Path Slash [''dump'', ''recovery'', ''ramdisk'', ''vendor''],
         Path Slash [''dump'', ''vendor_boot'', ''ramdisk'', ''vendor''],
         Path Slash [''ramdisk'', ''vendor''],
         Path Slash [''vendor_ramdisk'', ''vendor''],
         Path Slash [''vendor'']])"
proof -
  let ?e = "example_env [Path Slash [''dump'', ''system'', ''build.prop'']]"
  let ?S = "Path Slash [''dump'', ''system'']"
  let ?post = "[Path Slash [''dump'', ''system'', ''system''],
         Path Slash [''dump'', ''boot'', ''ramdisk'', ''system''],
         Path Slash [''dump'', ''recovery'', ''ramdisk'', ''system''],
         Path Slash [''dump'', ''vendor_boot'', ''ramdisk'', ''system''],
         Path Slash [''ramdisk'', ''system''],
         Path Slash [''vendor_ramdisk'', ''system''],
         Path Slash [''system'']]"
  have a: "\<forall>d\<in>set (get_extended_search_locations example_dump ''system'').
        \<forall>f\<in>set (all_prop_locations (example_env [])). \<not> is_file (example_env []) (truediv d f)"
    by (simp add: example_env_def)
  have b: "get_extended_search_locations example_dump ''system'' = [] @ ?S # ?post
        \<and> (\<forall>d\<in>set []. \<forall>f\<in>set (all_prop_locations ?e). \<not> is_file ?e (truediv d f))
        \<and> (\<exists>f\<in>set (all_prop_locations ?e). is_file ?e (truediv ?S f))
        \<and> (\<forall>d\<in>set (truediv_str ?S ''vendor'' # get_extended_search_locations example_dump ''vendor'').
              \<forall>f\<in>set (all_prop_locations ?e). \<not> is_file ?e (truediv d f))"
    by code_simp
  have v: "truediv_str ?S ''vendor'' # get_extended_search_locations example_dump ''vendor'' =
        [Path Slash [''dump'', ''system'', ''vendor''],
         Path Slash [''dump'', ''vendor''],
         Path Slash [''dump'', ''boot'', ''ramdisk'', ''vendor''],
         Path Slash [''dump'', ''recovery'', ''ramdisk'', ''vendor''],
         Path Slash [''dump'', ''vendor_boot'', ''ramdisk'', ''vendor''],
         Path Slash [''ramdisk'', ''vendor''],
         Path Slash [''vendor_ramdisk'', ''vendor''],
         Path Slash [''vendor'']]"
    by code_simp
  have 1: "init (example_env []) example_dump
     = Inl (SystemNotFound (get_extended_search_locations example_dump ''system''))"
    using mandatory_partition_missing [of example_dump "example_env []"] a
    by (rule conjunct1 [THEN mp])
  have 2: "init ?e example_dump = Inl (VendorNotFound
        (truediv_str ?S ''vendor'' # get_extended_search_locations example_dump ''vendor''))"
    using mandatory_partition_missing [of example_dump ?e "[]" ?S ?post] b
    by (rule conjunct2 [THEN mp])
  show ?thesis using 1 2 unfolding v by (rule conjI)
qed

text \<open>
  C7: whenever the constructor succeeds, System and Vendor are keys of the table,
  \<^verbatim>\<open>get_partition\<close> returns them, and both are among the values
  \<^verbatim>\<open>get_all_partitions\<close> returns, whatever else was found.  The values come in the
  order of the keys' insertion: System, then Vendor, then the other identities found, in
  the order in which they were searched (the first group without System, then the second
  without Vendor), each once.
\<close>

theorem mandatory_partitions_present:
  assumes "init e dump = Inr self"
  shows "SYSTEM \<in> fst ` set (partitions self) \<and> VENDOR \<in> fst ` set (partitions self)
         \<and> get_partition self (Some SYSTEM) = Some (system self)
         \<and> get_partition self (Some VENDOR) = Some (vendor self)
         \<and> system self \<in> set (get_all_partitions self)
         \<and> vendor self \<in> set (get_all_partitions self)
         \<and> map ap_model (get_all_partitions self) = map fst (partitions self)
         \<and> (\<exists>others. get_all_partitions self = system self # vendor self # others
               \<and> subseq (map ap_model others)
                    (filter (\<lambda>model. model \<noteq> SYSTEM) (from_group_SSI e)
                     @ filter (\<lambda>model. model \<noteq> VENDOR) (from_group_TREBLE e))
               \<and> distinct (map ap_model (get_all_partitions self)))"
proof -
  from init_success [OF assms]
  obtain S V new where p: "self = \<lparr>dump_path = dump,
                partitions = (SYSTEM, AndroidPartition SYSTEM S)
                               # (VENDOR, AndroidPartition VENDOR V) # new,
                system = AndroidPartition SYSTEM S,
                vendor = AndroidPartition VENDOR V\<rparr>"
    and sub: "subseq (map fst new)
                (filter (\<lambda>model. model \<noteq> SYSTEM) (from_group_SSI e)
                 @ filter (\<lambda>model. model \<noteq> VENDOR) (from_group_TREBLE e))"
    and dist: "distinct (map fst new)"
    and ent: "\<forall>k v. (k, v) \<in> set new \<longrightarrow> k \<noteq> SYSTEM \<and> k \<noteq> VENDOR
                 \<and> (\<exists>d\<in>set (possible_locations e dump (AndroidPartition SYSTEM S)
                                  (AndroidPartition VENDOR V) k).
                       (\<exists>f\<in>set (all_prop_locations e). is_file e (truediv d f))
                       \<and> v = AndroidPartition k d)" by blast
  have "\<forall>k v. (k, v) \<in> set new \<longrightarrow> (\<exists>d. v = AndroidPartition k d)"
    using ent by blast
  then have models: "map ap_model (map snd new) = map fst new" by (rule found_models)
  have nosys: "SYSTEM \<notin> fst ` set new"
  proof
    assume "SYSTEM \<in> fst ` set new"
    then obtain v where "(SYSTEM, v) \<in> set new" by force
    then show False using ent by blast
  qed
  have noven: "VENDOR \<notin> fst ` set new"
  proof
    assume "VENDOR \<in> fst ` set new"
    then obtain v where "(VENDOR, v) \<in> set new" by force
    then show False using ent by blast
  qed
  have 1: "SYSTEM \<in> fst ` set (partitions self)" "VENDOR \<in> fst ` set (partitions self)"
    using p by simp_all
  have 2: "get_partition self (Some SYSTEM) = Some (system self)"
    "get_partition self (Some VENDOR) = Some (vendor self)"
    using p by (simp_all add: get_partition_def)
  have 3: "get_all_partitions self = system self # vendor self # map snd new"
    using p by (simp add: get_all_partitions_def)
  have 4: "map ap_model (get_all_partitions self) = map fst (partitions self)"
    using p models by (simp add: get_all_partitions_def)
  have 5: "distinct (map ap_model (get_all_partitions self))"
    unfolding 4 using p dist nosys noven by simp
  have 6: "subseq (map ap_model (map snd new))
                    (filter (\<lambda>model. model \<noteq> SYSTEM) (from_group_SSI e)
                     @ filter (\<lambda>model. model \<noteq> VENDOR) (from_group_TREBLE e))"
    unfolding models using sub .
  have 7: "system self \<in> set (get_all_partitions self)"
    "vendor self \<in> set (get_all_partitions self)"
    unfolding 3 by simp_all
  have 8: "\<exists>others. get_all_partitions self = system self # vendor self # others
               \<and> subseq (map ap_model others)
                    (filter (\<lambda>model. model \<noteq> SYSTEM) (from_group_SSI e)
                     @ filter (\<lambda>model. model \<noteq> VENDOR) (from_group_TREBLE e))
               \<and> distinct (map ap_model (get_all_partitions self))"
    using 3 6 5 by (intro exI [of _ "map snd new"] conjI)
  show ?thesis using 1 2 7 4 8 by (intro conjI)
qed

theorem mandatory_partitions_present_witness:
  "\<exists>self. init (example_env [Path Slash [''dump'', ''system'', ''build.prop''],
                             Path Slash [''dump'', ''vendor'', ''build.prop''],
                             Path Slash [''dump'', ''odm'', ''etc'', ''build.prop'']])
              example_dump = Inr self
     \<and> system self \<in> set (get_all_partitions self)
     \<and> vendor self \<in> set (get_all_partitions self)
     \<and> map ap_model (get_all_partitions self) = [SYSTEM, VENDOR, OtherModel 1]"
proof -
  let ?e = "example_env [Path Slash [''dump'', ''system'', ''build.prop''],
                         Path Slash [''dump'', ''vendor'', ''build.prop''],
                         Path Slash [''dump'', ''odm'', ''etc'', ''build.prop'']]"
  let ?self = "\<lparr>dump_path = example_dump,
                partitions = example_table
                  @ [(OtherModel 1, AndroidPartition (OtherModel 1) (Path Slash [''dump'', ''odm'']))],
                system = AndroidPartition SYSTEM (Path Slash [''dump'', ''system'']),
                vendor = AndroidPartition VENDOR (Path Slash [''dump'', ''vendor''])\<rparr>"
  have h: "init ?e example_dump = Inr ?self" by code_simp
  note c = mandatory_partitions_present [OF h]
  have c1: "system ?self \<in> set (get_all_partitions ?self)" using c by (elim conjE)
  have c2: "vendor ?self \<in> set (get_all_partitions ?self)" using c by (elim conjE)
  have c3: "map ap_model (get_all_partitions ?self) = map fst (partitions ?self)"
    using c by (elim conjE)
  have c4: "map fst (partitions ?self) = [SYSTEM, VENDOR, OtherModel 1]"
    by (simp add: example_table_def)
  show ?thesis using h c1 c2 c3 [unfolded c4] by (intro exI [of _ ?self] conjI)
qed

text \<open>
  C8: if the constructor succeeds and, for an identity other than System and Vendor, no
  candidate directory of the generic extended search contains any file of the combined
  property-file list, then the identity is no key of the table, \<^verbatim>\<open>get_partition\<close>
  returns \<^verbatim>\<open>None\<close> for it, and so does \<^verbatim>\<open>get_partition_by_name\<close> for every name of
  it.  The accessors have no failing branch.
\<close>

theorem optional_partition_absent:
  assumes "init e dump = Inr self"
    and "m \<noteq> SYSTEM" and "m \<noteq> VENDOR"
    and "\<forall>d\<in>set (possible_locations e dump (system self) (vendor self) m).
           \<forall>f\<in>set (all_prop_locations e). \<not> is_file e (truediv d f)"
  shows "m \<notin> fst ` set (partitions self)
         \<and> get_partition self (Some m) = None
         \<and> (\<forall>name. from_name e name = Some m \<longrightarrow> get_partition_by_name e self name = None)"
proof -
  from init_success [OF assms(1)]
  obtain S V new where p: "self = \<lparr>dump_path = dump,
                partitions = (SYSTEM, AndroidPartition SYSTEM S)
                               # (VENDOR, AndroidPartition VENDOR V) # new,
                system = AndroidPartition SYSTEM S,
                vendor = AndroidPartition VENDOR V\<rparr>"
    and ent: "\<forall>k v. (k, v) \<in> set new \<longrightarrow> k \<noteq> SYSTEM \<and> k \<noteq> VENDOR
                 \<and> (\<exists>d\<in>set (possible_locations e dump (AndroidPartition SYSTEM S)
                                  (AndroidPartition VENDOR V) k).
                       (\<exists>f\<in>set (all_prop_locations e). is_file e (truediv d f))
                       \<and> v = AndroidPartition k d)" by blast
  have miss: "\<forall>d\<in>set (possible_locations e dump (AndroidPartition SYSTEM S)
                                  (AndroidPartition VENDOR V) m).
           \<forall>f\<in>set (all_prop_locations e). \<not> is_file e (truediv d f)"
    using assms(4) p by simp
  have "m \<notin> fst ` set new"
  proof
    assume "m \<in> fst ` set new"
    then obtain v where "(m, v) \<in> set new" by force
    then have "\<exists>d\<in>set (possible_locations e dump (AndroidPartition SYSTEM S)
                                  (AndroidPartition VENDOR V) m).
                       \<exists>f\<in>set (all_prop_locations e). is_file e (truediv d f)"
      using ent by blast
    then show False using miss by blast
  qed
  then have 1: "m \<notin> fst ` set (partitions self)"
    using p assms(2,3) by simp
  then have 2: "get_partition self (Some m) = None"
    by (simp add: get_partition_def)
  then have 3: "\<forall>name. from_name e name = Some m \<longrightarrow> get_partition_by_name e self name = None"
    by (simp add: get_partition_by_name_def)
  show ?thesis using 1 2 3 by (intro conjI)
qed

theorem optional_partition_absent_witness:
  "\<exists>self. init (example_env [Path Slash [''dump'', ''system'', ''build.prop''],
                             Path Slash [''dump'', ''vendor'', ''build.prop'']])
              example_dump = Inr self
     \<and> get_partition self (Some (OtherModel 0)) = None
     \<and> get_partition_by_name
          (example_env [Path Slash [''dump'', ''system'', ''build.prop''],
                        Path Slash [''dump'', ''vendor'', ''build.prop'']]) self ''product'' = None"
proof -
  let ?e = "example_env [Path Slash [''dump'', ''system'', ''build.prop''],
                         Path Slash [''dump'', ''vendor'', ''build.prop'']]"
  let ?self = "\<lparr>dump_path = example_dump, partitions = example_table,
                system = AndroidPartition SYSTEM (Path Slash [''dump'', ''system'']),
                vendor = AndroidPartition VENDOR (Path Slash [''dump'', ''vendor''])\<rparr>"
  have h1: "init ?e example_dump = Inr ?self" by code_simp
  have h2: "OtherModel 0 \<noteq> SYSTEM" by simp
  have h3: "OtherModel 0 \<noteq> VENDOR" by simp
  have h4: "\<forall>d\<in>set (possible_locations ?e example_dump (system ?self) (vendor ?self) (OtherModel 0)).
           \<forall>f\<in>set (all_prop_locations ?e). \<not> is_file ?e (truediv d f)"
    by code_simp
  note c = optional_partition_absent [OF h1 h2 h3 h4]
  have c1: "get_partition ?self (Some (OtherModel 0)) = None" using c by (elim conjE)
  have c2: "\<forall>name. from_name ?e name = Some (OtherModel 0)
              \<longrightarrow> get_partition_by_name ?e ?self name = None" using c by (elim conjE)
  have "from_name ?e ''product'' = Some (OtherModel 0)" by (simp add: example_env_def)
  then have c3: "get_partition_by_name ?e ?self ''product'' = None" using c2 by simp
  show ?thesis using h1 c1 c3 by (intro exI [of _ ?self] conjI)
qed

text \<open>
  C5, as the code has it: let exactly the files \<^verbatim>\<open>R/vendor/build.prop\<close> and
  \<^verbatim>\<open>R/system/system/build.prop\<close> exist, and let the canonical property files be
  relative paths.  Then the constructor succeeds, with System resolved to \<^verbatim>\<open>R/system\<close>
  and Vendor to \<^verbatim>\<open>R/vendor\<close>: the first System candidate \<^verbatim>\<open>R/system\<close> already matches,
  through the property file \<^verbatim>\<open>system/build.prop\<close> of the extended list, before
  \<^verbatim>\<open>R/system/system\<close> is tried; and \<^verbatim>\<open>R/system/vendor\<close>, tried first for Vendor,
  holds no property file.
\<close>

theorem nested_system_dump:
  assumes files: "\<forall>p. is_file e p \<longleftrightarrow>
             (p = truediv_str (truediv_str R ''vendor'') ''build.prop''
              \<or> p = truediv_str (truediv_str (truediv_str R ''system'') ''system'') ''build.prop'')"
    and relative: "\<forall>f\<in>set (BUILD_PROP_LOCATION e). path_root f = NoRoot"
  shows "\<exists>self. init e R = Inr self
           \<and> system self = AndroidPartition SYSTEM (truediv_str R ''system'')
           \<and> vendor self = AndroidPartition VENDOR (truediv_str R ''vendor'')
           \<and> get_partition self (Some SYSTEM)
               = Some (AndroidPartition SYSTEM (truediv_str R ''system''))
           \<and> get_partition self (Some VENDOR)
               = Some (AndroidPartition VENDOR (truediv_str R ''vendor''))"
proof -
  obtain r ps where R: "R = Path r ps" by (cases R)
  let ?S = "Path r (ps @ [''system''])" and ?V = "Path r (ps @ [''vendor''])"
  let ?N = "Path r (ps @ [''system'', ''vendor''])"
  have S: "truediv_str R ''system'' = ?S" and V: "truediv_str R ''vendor'' = ?V"
    and N: "truediv_str ?S ''vendor'' = ?N"
    by (simp_all add: R truediv_str_def Path_of_str_literals truediv_relative)
  have is_file: "is_file e p \<longleftrightarrow> p = Path r (ps @ [''vendor'', ''build.prop''])
                   \<or> p = Path r (ps @ [''system'', ''system'', ''build.prop''])" for p
    using files
    by (simp add: R truediv_str_def Path_of_str_literals Path_of_str_build_prop truediv_relative)
  obtain post where s1: "get_extended_search_locations R ''system'' = [] @ ?S # post"
    using system_candidates_head [of R] S by auto
  have s2: "\<forall>d\<in>set []. \<forall>f\<in>set (all_prop_locations e). \<not> is_file e (truediv d f)"
    by simp
  have "Path NoRoot [''system'', ''build.prop''] \<in> set (all_prop_locations e)"
    by (simp add: all_prop_locations_def extended_build_prop_locations)
  moreover have "is_file e (truediv ?S (Path NoRoot [''system'', ''build.prop'']))"
    by (simp add: is_file truediv_relative)
  ultimately have s3: "\<exists>f\<in>set (all_prop_locations e). is_file e (truediv ?S f)"
    by (rule bexI [rotated])
  obtain vpost where v0: "get_extended_search_locations R ''vendor'' = ?V # vpost"
    using vendor_candidates_head [of R] V by auto
  have v1: "truediv_str ?S ''vendor'' # get_extended_search_locations R ''vendor''
              = [?N] @ ?V # vpost"
    by (simp add: N v0)
  have miss_canonical: "\<not> is_file e (truediv ?N f)" if "f \<in> set (BUILD_PROP_LOCATION e)" for f
  proof -
    have "path_root f = NoRoot" using relative that by blast
    then have "truediv ?N f = Path r (ps @ [''system'', ''vendor''] @ path_parts f)"
      by (simp add: truediv_def)
    then show ?thesis by (simp add: is_file)
  qed
  have miss_extended: "\<not> is_file e (truediv ?N f)"
    if "f \<in> set get_extended_build_prop_locations" for f
    using that by (auto simp: extended_build_prop_locations truediv_relative is_file)
  have v2: "\<forall>d\<in>set [?N]. \<forall>f\<in>set (all_prop_locations e). \<not> is_file e (truediv d f)"
    using miss_canonical miss_extended by (auto simp: all_prop_locations_def)
  have "Path NoRoot [''build.prop''] \<in> set (all_prop_locations e)"
    by (simp add: all_prop_locations_def extended_build_prop_locations)
  moreover have "is_file e (truediv ?V (Path NoRoot [''build.prop'']))"
    by (simp add: is_file truediv_relative)
  ultimately have v3: "\<exists>f\<in>set (all_prop_locations e). is_file e (truediv ?V f)"
    by (rule bexI [rotated])
  from init_found [OF s1 s2 s3 v1 v2 v3]
  obtain new where n: "init e R =
            Inr \<lparr>dump_path = R,
                 partitions = (SYSTEM, AndroidPartition SYSTEM ?S)
                                # (VENDOR, AndroidPartition VENDOR ?V) # new,
                 system = AndroidPartition SYSTEM ?S,
                 vendor = AndroidPartition VENDOR ?V\<rparr>" by blast
  let ?self = "\<lparr>dump_path = R,
                 partitions = (SYSTEM, AndroidPartition SYSTEM ?S)
                                # (VENDOR, AndroidPartition VENDOR ?V) # new,
                 system = AndroidPartition SYSTEM ?S,
                 vendor = AndroidPartition VENDOR ?V\<rparr>"
  have "system ?self = AndroidPartition SYSTEM (truediv_str R ''system'')"
    "vendor ?self = AndroidPartition VENDOR (truediv_str R ''vendor'')"
    "get_partition ?self (Some SYSTEM) = Some (AndroidPartition SYSTEM (truediv_str R ''system''))"
    "get_partition ?self (Some VENDOR) = Some (AndroidPartition VENDOR (truediv_str R ''vendor''))"
    by (simp_all add: S V get_partition_def)
  then show ?thesis using n by (intro exI [of _ ?self] conjI)
qed

theorem nested_system_dump_witness:
  "\<exists>self. init (example_env [Path Slash [''dump'', ''vendor'', ''build.prop''],
                             Path Slash [''dump'', ''system'', ''system'', ''build.prop'']])
              example_dump = Inr self
     \<and> system self = AndroidPartition SYSTEM (Path Slash [''dump'', ''system''])
     \<and> vendor self = AndroidPartition VENDOR (Path Slash [''dump'', ''vendor''])"
proof -
  let ?e = "example_env [Path Slash [''dump'', ''vendor'', ''build.prop''],
                         Path Slash [''dump'', ''system'', ''system'', ''build.prop'']]"
  have files: "\<forall>p. is_file ?e p \<longleftrightarrow>
             (p = truediv_str (truediv_str example_dump ''vendor'') ''build.prop''
              \<or> p = truediv_str (truediv_str (truediv_str example_dump ''system'') ''system'')
                     ''build.prop'')"
    by (simp add: example_env_def example_dump_def truediv_str_def Path_of_str_literals
        Path_of_str_build_prop truediv_relative)
  have relative: "\<forall>f\<in>set (BUILD_PROP_LOCATION ?e). path_root f = NoRoot"
    by (simp add: example_env_def)
  have paths: "truediv_str example_dump ''system'' = Path Slash [''dump'', ''system'']"
    "truediv_str example_dump ''vendor'' = Path Slash [''dump'', ''vendor'']"
    by (simp_all add: example_dump_def truediv_str_def Path_of_str_literals truediv_relative)
  from nested_system_dump [OF files relative]
  obtain self where "init ?e example_dump = Inr self"
    "system self = AndroidPartition SYSTEM (truediv_str example_dump ''system'')"
    "vendor self = AndroidPartition VENDOR (truediv_str example_dump ''vendor'')"
    by (elim exE conjE)
  then show ?thesis unfolding paths by (intro exI [of _ self] conjI)
qed

text \<open>
  C5 as stated fails: for the dump \<^verbatim>\<open>/dump\<close> with exactly these two files, the
  constructor succeeds and System is resolved to \<^verbatim>\<open>/dump/system\<close>, not to
  \<^verbatim>\<open>/dump/system/system\<close>.
\<close>

theorem nested_system_dump_counterexample:
  "init (example_env [Path Slash [''dump'', ''vendor'', ''build.prop''],
                      Path Slash [''dump'', ''system'', ''system'', ''build.prop'']])
     example_dump
   = Inr \<lparr>dump_path = Path Slash [''dump''],
          partitions = [(SYSTEM, AndroidPartition SYSTEM (Path Slash [''dump'', ''system''])),
                        (VENDOR, AndroidPartition VENDOR (Path Slash [''dump'', ''vendor'']))],
          system = AndroidPartition SYSTEM (Path Slash [''dump'', ''system'']),
          vendor = AndroidPartition VENDOR (Path Slash [''dump'', ''vendor''])\<rparr>
   \<and> get_partition
         \<lparr>dump_path = Path Slash [''dump''],
          partitions = [(SYSTEM, AndroidPartition SYSTEM (Path Slash [''dump'', ''system''])),
                        (VENDOR, AndroidPartition VENDOR (Path Slash [''dump'', ''vendor'']))],
          system = AndroidPartition SYSTEM (Path Slash [''dump'', ''system'']),
          vendor = AndroidPartition VENDOR (Path Slash [''dump'', ''vendor''])\<rparr>
         (Some SYSTEM)
       \<noteq> Some (AndroidPartition SYSTEM (Path Slash [''dump'', ''system'', ''system'']))"
  by code_simp

end
